theory Spec2Isabelle
  imports Complex_Main "HOL-Library.Log_Nat" "HOL-Library.Monad_Syntax"
begin

section \<open>C arithmetic\<close>

subsection \<open>float and double\<close>

text \<open>
  A C \<^verbatim>\<open>float\<close> or \<^verbatim>\<open>double\<close> value is modelled by its exact value:
  \<open>Fl m e\<close> is the dyadic number \<open>m * 2 ^ e\<close>, \<open>FlInf neg\<close> is an infinity with its
  sign, \<open>FlNaN\<close> is not-a-number.  Every operation computes the exact result and
  rounds it to the nearest value with \<open>p\<close> significant bits, ties to even
  (IEEE 754 round-to-nearest-even; \<open>p = 24\<close> for \<^verbatim>\<open>float\<close>, \<open>p = 53\<close> for
  \<^verbatim>\<open>double\<close>), each operation in the precision of its C type.  The exponent range
  is not bounded: overflow to infinity and gradual underflow are outside the model.
\<close>

datatype cfloat = Fl int int | FlInf bool | FlNaN

definition round_even :: "nat \<Rightarrow> int \<Rightarrow> int" where
  "round_even k m =
     (let q = m div 2 ^ k; r = m mod 2 ^ k
      in if 2 ^ k < 2 * r \<or> (2 * r = 2 ^ k \<and> odd q) then q + 1 else q)"

definition fround :: "nat \<Rightarrow> int \<Rightarrow> int \<Rightarrow> cfloat" where
  "fround p m e =
     (let k = nat (bitlen \<bar>m\<bar> - int p) in Fl (round_even k m) (e + int k))"

fun fmul :: "cfloat \<Rightarrow> cfloat \<Rightarrow> cfloat" where
  "fmul (Fl m1 e1) (Fl m2 e2) = fround 24 (m1 * m2) (e1 + e2)"
| "fmul (Fl m e) (FlInf b) = (if m = 0 then FlNaN else FlInf (b \<noteq> (m < 0)))"
| "fmul (FlInf b) (Fl m e) = (if m = 0 then FlNaN else FlInf (b \<noteq> (m < 0)))"
| "fmul (FlInf a) (FlInf b) = FlInf (a \<noteq> b)"
| "fmul FlNaN _ = FlNaN"
| "fmul _ FlNaN = FlNaN"

text \<open>
  Division: the quotient of the mantissas is computed to at least \<open>p + 2\<close> bits, a
  sticky bit records a non-zero remainder, and the result is rounded once.
\<close>

fun fdivp :: "nat \<Rightarrow> cfloat \<Rightarrow> cfloat \<Rightarrow> cfloat" where
  "fdivp p (Fl m1 e1) (Fl m2 e2) =
     (if m2 = 0 then (if m1 = 0 then FlNaN else FlInf (m1 < 0))
      else if m1 = 0 then Fl 0 0
      else
        let s = nat (int p + 2 + bitlen \<bar>m2\<bar> - bitlen \<bar>m1\<bar>);
            a = \<bar>m1\<bar> * 2 ^ s;
            b = \<bar>m2\<bar>;
            q = 2 * (a div b) + (if a mod b = 0 then 0 else 1);
            sg = (if (m1 < 0) \<noteq> (m2 < 0) then - 1 else 1)
        in fround p (sg * q) (e1 - e2 - int s - 1))"
| "fdivp p (Fl m e) (FlInf b) = Fl 0 0"
| "fdivp p (FlInf b) (Fl m e) = FlInf (b \<noteq> (m < 0))"
| "fdivp p (FlInf a) (FlInf b) = FlNaN"
| "fdivp p FlNaN _ = FlNaN"
| "fdivp p _ FlNaN = FlNaN"

fun faddp :: "nat \<Rightarrow> cfloat \<Rightarrow> cfloat \<Rightarrow> cfloat" where
  "faddp p (Fl m1 e1) (Fl m2 e2) =
     (let e = min e1 e2
      in fround p (m1 * 2 ^ nat (e1 - e) + m2 * 2 ^ nat (e2 - e)) e)"
| "faddp p (Fl m e) (FlInf b) = FlInf b"
| "faddp p (FlInf b) (Fl m e) = FlInf b"
| "faddp p (FlInf a) (FlInf b) = (if a = b then FlInf a else FlNaN)"
| "faddp p FlNaN _ = FlNaN"
| "faddp p _ FlNaN = FlNaN"

text \<open>The comparisons \<^verbatim>\<open><\<close> and \<^verbatim>\<open><=\<close>: exact, and false on a NaN.\<close>

fun flt :: "cfloat \<Rightarrow> cfloat \<Rightarrow> bool" where
  "flt (Fl m1 e1) (Fl m2 e2) =
     (let e = min e1 e2 in m1 * 2 ^ nat (e1 - e) < m2 * 2 ^ nat (e2 - e))"
| "flt (Fl m e) (FlInf b) = (\<not> b)"
| "flt (FlInf b) (Fl m e) = b"
| "flt (FlInf a) (FlInf b) = (a \<and> \<not> b)"
| "flt FlNaN _ = False"
| "flt _ FlNaN = False"

fun fle :: "cfloat \<Rightarrow> cfloat \<Rightarrow> bool" where
  "fle (Fl m1 e1) (Fl m2 e2) =
     (let e = min e1 e2 in m1 * 2 ^ nat (e1 - e) \<le> m2 * 2 ^ nat (e2 - e))"
| "fle (Fl m e) (FlInf b) = (\<not> b)"
| "fle (FlInf b) (Fl m e) = b"
| "fle (FlInf a) (FlInf b) = (a \<or> \<not> b)"
| "fle FlNaN _ = False"
| "fle _ FlNaN = False"

text \<open>
  Conversions.  \<^verbatim>\<open>(float)i\<close> rounds an \<^verbatim>\<open>int\<close> to 24 bits; a \<^verbatim>\<open>float\<close> is a
  \<^verbatim>\<open>double\<close> as it is; a \<^verbatim>\<open>double\<close> becomes a \<^verbatim>\<open>float\<close> by rounding; a floating
  value becomes an \<^verbatim>\<open>int\<close> by truncation towards zero (undefined in C for an
  infinity or a NaN: the model returns 0 there, and no modelled path converts one).
\<close>

definition float_of_int :: "int \<Rightarrow> cfloat" where
  "float_of_int i = fround 24 i 0"

definition float_of_double :: "cfloat \<Rightarrow> cfloat" where
  "float_of_double d = (case d of Fl m e \<Rightarrow> fround 24 m e | _ \<Rightarrow> d)"

fun int_of_float :: "cfloat \<Rightarrow> int" where
  "int_of_float (Fl m e) =
     (if 0 \<le> e then m * 2 ^ nat e else sgn m * (\<bar>m\<bar> div 2 ^ nat (- e)))"
| "int_of_float _ = 0"

text \<open>A decimal literal \<open>n/d\<close> of type \<^verbatim>\<open>double\<close>: the nearest double.\<close>

definition dlit :: "int \<Rightarrow> int \<Rightarrow> cfloat" where
  "dlit n d = fdivp 53 (Fl n 0) (Fl d 0)"

text \<open>The exact value of a finite \<open>cfloat\<close>, for stating bounds.\<close>

fun fval :: "cfloat \<Rightarrow> real" where
  "fval (Fl m e) = of_int m * 2 powr of_int e"
| "fval _ = 0"

fun ffinite :: "cfloat \<Rightarrow> bool" where
  "ffinite (Fl m e) = True"
| "ffinite _ = False"

subsection \<open>int and unsigned int\<close>

text \<open>
  An \<^verbatim>\<open>int\<close> is modelled as an unbounded integer (signed overflow is undefined in
  C and no modelled path relies on it).  Division and remainder truncate towards zero.
  Where an \<^verbatim>\<open>int\<close> meets an \<^verbatim>\<open>unsigned int\<close> in one operation, C converts it to
  \<^verbatim>\<open>unsigned int\<close> (modulo \<open>2 ^ 32\<close>) first; the result stored back into an
  \<^verbatim>\<open>int\<close> is read as two's complement.
\<close>

definition c_div :: "int \<Rightarrow> int \<Rightarrow> int" where
  "c_div a b = sgn a * sgn b * (\<bar>a\<bar> div \<bar>b\<bar>)"

definition c_mod :: "int \<Rightarrow> int \<Rightarrow> int" where
  "c_mod a b = a - b * c_div a b"

definition uint_of_int :: "int \<Rightarrow> int" where
  "uint_of_int i = i mod 2 ^ 32"

definition int_of_uint :: "int \<Rightarrow> int" where
  "int_of_uint u = (if u < 2 ^ 31 then u else u - 2 ^ 32)"

section \<open>The data model of dwm.c\<close>

text \<open>
  Pointers to clients and monitors are addresses (\<open>cid\<close>, \<open>mid\<close>); the two heaps map
  an address to the struct stored there.  A NULL-terminated chain of clients (the
  \<^verbatim>\<open>clients\<close> head of a view followed through \<^verbatim>\<open>next\<close>, the \<^verbatim>\<open>stack\<close> head
  followed through \<^verbatim>\<open>snext\<close>, \<^verbatim>\<open>mons\<close> followed through the monitors'
  \<^verbatim>\<open>next\<close>) is the list of the addresses it visits, and a pointer into a chain is
  the rest of the list from there: the empty list is NULL.  A pointer that may be
  NULL and is not a position in a chain (\<^verbatim>\<open>sel\<close>) is an \<open>option\<close>.

  The fields keep the names of the C structs behind a prefix (\<open>c_\<close>, \<open>v_\<close>, \<open>m_\<close>,
  \<open>lt_\<close>), since a record field is a constant of the whole theory.
\<close>

type_synonym cid = nat
type_synonym mid = nat
type_synonym window = nat

record Client =
  c_name :: string
  c_mina :: cfloat
  c_maxa :: cfloat
  c_x :: int
  c_y :: int
  c_w :: int
  c_h :: int
  c_oldx :: int
  c_oldy :: int
  c_oldw :: int
  c_oldh :: int
  c_basew :: int
  c_baseh :: int
  c_incw :: int
  c_inch :: int
  c_maxw :: int
  c_maxh :: int
  c_minw :: int
  c_minh :: int
  c_bw :: int
  c_oldbw :: int
  c_isfixed :: bool
  c_isfloating :: bool
  c_isurgent :: bool
  c_oldstate :: bool
  c_mon :: mid
  c_view :: nat
  c_win :: window

text \<open>
  The \<^verbatim>\<open>arrange\<close> member of a \<^verbatim>\<open>Layout\<close> is a pointer to one of the three
  arrangers of dwm.c, or NULL (the floating layout).
\<close>

datatype arranger = Tile | MirrorTile | Monocle

record Layout =
  lt_symbol :: string
  lt_arrange :: "arranger option"

record View =
  v_mfact :: cfloat
  v_clients :: "cid list"
  v_sel :: "cid option"
  v_stack :: "cid list"
  v_lt :: Layout

record Monitor =
  m_ltsymbol :: string
  m_num :: int
  m_by :: int
  m_mx :: int
  m_my :: int
  m_mw :: int
  m_mh :: int
  m_wx :: int
  m_wy :: int
  m_ww :: int
  m_wh :: int
  m_showbar :: bool
  m_topbar :: bool
  m_barwin :: window
  m_selview :: nat
  m_views :: "View list"

text \<open>
  The settings of config.h that dwm.c reads, and the macro \<^verbatim>\<open>VERSION\<close> of the build.
  Neither is part of the sources at hand, so they are a parameter of every function
  that reads one.
\<close>

record Config =
  resizehints :: bool
  borderpx :: int
  mfact :: cfloat
  showbar :: bool
  topbar :: bool
  layouts :: "Layout list"
  VERSION :: string

text \<open>The global variables of dwm.c that the model needs, and the two heaps.\<close>

record State =
  sw :: int
  sh :: int
  bh :: int
  stext :: string
  root :: window
  mons :: "mid list"
  selmon :: mid
  monitor_at :: "mid \<Rightarrow> Monitor"
  client_at :: "cid \<Rightarrow> Client"

definition NUMVIEWS :: nat where
  "NUMVIEWS = 9"

definition WIDTH :: "Client \<Rightarrow> int" where
  "WIDTH c = c_w c + 2 * c_bw c"

definition HEIGHT :: "Client \<Rightarrow> int" where
  "HEIGHT c = c_h c + 2 * c_bw c"

text \<open>
  \<^verbatim>\<open>m->views[i]\<close>: an index outside the array is undefined behaviour, which the
  model reports as \<open>None\<close>.
\<close>

definition getview :: "Monitor \<Rightarrow> nat \<Rightarrow> View option" where
  "getview m i = (if i < NUMVIEWS \<and> i < length (m_views m) then Some (m_views m ! i) else None)"

definition SELVIEW :: "State \<Rightarrow> mid \<Rightarrow> View option" where
  "SELVIEW s m = getview (monitor_at s m) (m_selview (monitor_at s m))"

definition setview :: "State \<Rightarrow> mid \<Rightarrow> nat \<Rightarrow> View \<Rightarrow> State" where
  "setview s m i v =
     s\<lparr>monitor_at := (monitor_at s)(m := (monitor_at s m)\<lparr>m_views := (m_views (monitor_at s m))[i := v]\<rparr>)\<rparr>"

definition setclient :: "State \<Rightarrow> cid \<Rightarrow> Client \<Rightarrow> State" where
  "setclient s c cl = s\<lparr>client_at := (client_at s)(c := cl)\<rparr>"

section \<open>Geometry and size hints\<close>

text \<open>
  \<^verbatim>\<open>applysizehints\<close> works on the four values its pointer arguments refer to and
  returns whether they differ from the client's rectangle; the model returns the flag
  and the four values: \<open>sizehints\<close> is the body up to the \<^verbatim>\<open>return\<close>, which
  computes the four values, and \<open>applysizehints\<close> adds the flag.  The part that
  adjusts for the aspect limits is a function of its own, \<open>aspect_step\<close>.
\<close>

definition aspect_step :: "Client \<Rightarrow> int \<times> int \<Rightarrow> int \<times> int" where
  "aspect_step c wh =
     (let w = fst wh; h = snd wh
      in if flt (Fl 0 0) (c_mina c) \<and> flt (Fl 0 0) (c_maxa c) then
           if flt (c_maxa c) (fdivp 24 (float_of_int w) (float_of_int h)) then
             (int_of_float (faddp 53 (fmul (float_of_int h) (c_maxa c)) (dlit 5 10)), h)
           else if flt (c_mina c) (fdivp 24 (float_of_int h) (float_of_int w)) then
             (w, int_of_float (faddp 53 (fmul (float_of_int w) (c_mina c)) (dlit 5 10)))
           else (w, h)
         else (w, h))"

definition sizehints ::
  "Config \<Rightarrow> State \<Rightarrow> cid \<Rightarrow> int \<Rightarrow> int \<Rightarrow> int \<Rightarrow> int \<Rightarrow> bool \<Rightarrow> int \<times> int \<times> int \<times> int"
where
  "sizehints cfg s ci x0 y0 w0 h0 interact =
     (let c = client_at s ci;
          m = monitor_at s (c_mon c);
          w = max 1 w0;
          h = max 1 h0;
          x = (if interact then (if sw s < x0 then sw s - WIDTH c else x0)
               else (if m_mx m + m_mw m < x0 then m_mx m + m_mw m - WIDTH c else x0));
          y = (if interact then (if sh s < y0 then sh s - HEIGHT c else y0)
               else (if m_my m + m_mh m < y0 then m_my m + m_mh m - HEIGHT c else y0));
          x = (if interact then (if x + w + 2 * c_bw c < 0 then 0 else x)
               else (if x + w + 2 * c_bw c < m_mx m then m_mx m else x));
          y = (if interact then (if y + h + 2 * c_bw c < 0 then 0 else y)
               else (if y + h + 2 * c_bw c < m_my m then m_my m else y));
          h = (if h < bh s then bh s else h);
          w = (if w < bh s then bh s else w);
          (w, h) =
            (if resizehints cfg \<or> c_isfloating c then
               let baseismin = (c_basew c = c_minw c \<and> c_baseh c = c_minh c);
                   (w, h) = (if \<not> baseismin then (w - c_basew c, h - c_baseh c) else (w, h));
                   (w, h) = aspect_step c (w, h);
                   (w, h) = (if baseismin then (w - c_basew c, h - c_baseh c) else (w, h));
                   w = (if c_incw c \<noteq> 0 then w - c_mod w (c_incw c) else w);
                   h = (if c_inch c \<noteq> 0 then h - c_mod h (c_inch c) else h);
                   w = w + c_basew c;
                   h = h + c_baseh c;
                   w = max w (c_minw c);
                   h = max h (c_minh c);
                   w = (if c_maxw c \<noteq> 0 then min w (c_maxw c) else w);
                   h = (if c_maxh c \<noteq> 0 then min h (c_maxh c) else h)
               in (w, h)
             else (w, h))
      in (x, y, w, h))"

definition applysizehints ::
  "Config \<Rightarrow> State \<Rightarrow> cid \<Rightarrow> int \<Rightarrow> int \<Rightarrow> int \<Rightarrow> int \<Rightarrow> bool \<Rightarrow> bool \<times> int \<times> int \<times> int \<times> int"
where
  "applysizehints cfg s ci x0 y0 w0 h0 interact =
     (case sizehints cfg s ci x0 y0 w0 h0 interact of
        (x, y, w, h) \<Rightarrow>
          (let c = client_at s ci
           in (x \<noteq> c_x c \<or> y \<noteq> c_y c \<or> w \<noteq> c_w c \<or> h \<noteq> c_h c, x, y, w, h)))"

definition resizeclient :: "State \<Rightarrow> cid \<Rightarrow> int \<Rightarrow> int \<Rightarrow> int \<Rightarrow> int \<Rightarrow> State" where
  "resizeclient s ci x y w h =
     (let c = client_at s ci
      in setclient s ci
           (c\<lparr>c_oldx := c_x c, c_x := x, c_oldy := c_y c, c_y := y,
              c_oldw := c_w c, c_w := w, c_oldh := c_h c, c_h := h\<rparr>))"

definition resize :: "Config \<Rightarrow> State \<Rightarrow> cid \<Rightarrow> int \<Rightarrow> int \<Rightarrow> int \<Rightarrow> int \<Rightarrow> bool \<Rightarrow> State" where
  "resize cfg s ci x y w h interact =
     (case applysizehints cfg s ci x y w h interact of
        (changed, x', y', w', h') \<Rightarrow> if changed then resizeclient s ci x' y' w' h' else s)"

section \<open>The layouts\<close>

fun nexttiled :: "State \<Rightarrow> cid list \<Rightarrow> cid list" where
  "nexttiled s [] = []"
| "nexttiled s (c # cs) = (if c_isfloating (client_at s c) then nexttiled s cs else c # cs)"

text \<open>
  The counting loop
  \<^verbatim>\<open>for (n = 0, c = nexttiled(clients); c; c = nexttiled(c->next), n++);\<close>
  started at \<open>c\<close> with the count \<open>n\<close>.
\<close>

function count_tiled :: "State \<Rightarrow> cid list \<Rightarrow> nat \<Rightarrow> nat" where
  "count_tiled s [] n = n"
| "count_tiled s (c # cs) n = count_tiled s (nexttiled s cs) (Suc n)"
  by pat_completeness auto
termination
proof (relation "measure (\<lambda>(s, cs, n). length cs)")
  have len: "length (nexttiled s cs) \<le> length cs" for s cs
    by (induction cs) auto
  show "\<And>s c cs n. ((s, nexttiled s cs, Suc n), (s, c # cs, n)) \<in> measure (\<lambda>(s, cs, n). length cs)"
    by (simp add: len less_Suc_eq_le)
qed simp

text \<open>
  The loop over the stack of \<^verbatim>\<open>tile\<close>, started at the client \<open>c\<close> (the head of the
  list) with the loop variables \<open>y\<close>, \<open>rh\<close> and \<open>i\<close>.  \<open>n\<close> is an
  \<^verbatim>\<open>unsigned int\<close>, as \<open>i\<close> is.
\<close>

function tile_loop ::
  "Config \<Rightarrow> mid \<Rightarrow> nat \<Rightarrow> int \<Rightarrow> int \<Rightarrow> int \<Rightarrow> State \<Rightarrow> int \<Rightarrow> int \<Rightarrow> nat \<Rightarrow> cid list \<Rightarrow> State"
where
  "tile_loop cfg m n x w h s y rh i [] = s"
| "tile_loop cfg m n x w h s y rh i (c # cs) =
     (let mo = monitor_at s m;
          bw = c_bw (client_at s c);
          s' = resize cfg s c x y (w - 2 * bw)
                 ((if i + 1 = n then m_wy mo + m_wh mo - y - 2 * bw else h - 2 * bw)
                    + (if 0 < rh then 1 else 0))
                 False;
          y' = (if h \<noteq> m_wh (monitor_at s' m)
                then c_y (client_at s' c) + HEIGHT (client_at s' c) else y)
      in tile_loop cfg m n x w h s' y' (rh - 1) (i + 1) (nexttiled s' cs))"
  by pat_completeness auto
termination
proof (relation "measure (\<lambda>(cfg, m, n, x, w, h, s, y, rh, i, cs). length cs)")
  have len: "length (nexttiled s cs) \<le> length cs" for s cs
    by (induction cs) auto
  show "\<And>cfg m n x w h s y rh i c cs xa xb xc xd.
       ((cfg, m, n, x, w, h, xc, xd, rh - 1, i + 1, nexttiled xc cs),
        (cfg, m, n, x, w, h, s, y, rh, i, c # cs))
       \<in> measure (\<lambda>(cfg, m, n, x, w, h, s, y, rh, i, cs). length cs)"
    by (simp add: len less_Suc_eq_le)
qed simp

definition tile :: "Config \<Rightarrow> State \<Rightarrow> mid \<Rightarrow> State option" where
  "tile cfg s m =
     do {
       v \<leftarrow> SELVIEW s m;
       let n = count_tiled s (nexttiled s (v_clients v)) 0;
       if n = 0 then Some s
       else
         (case nexttiled s (v_clients v) of
            [] \<Rightarrow> None
          | c # cs \<Rightarrow>
              let mo = monitor_at s m;
                  mw = int_of_float (fmul (v_mfact v) (float_of_int (m_ww mo)));
                  bw = c_bw (client_at s c);
                  s1 = resize cfg s c (m_wx mo) (m_wy mo)
                         ((if n = 1 then m_ww mo else mw) - 2 * bw) (m_wh mo - 2 * bw) False;
                  n = n - 1
              in if n = 0 then Some s1
                 else
                   let mo = monitor_at s1 m;
                       cl = client_at s1 c;
                       x = (if c_x cl + c_w cl < m_wx mo + mw
                            then c_x cl + c_w cl + 2 * c_bw cl else m_wx mo + mw);
                       y = m_wy mo;
                       w = (if c_x cl + c_w cl < m_wx mo + mw
                            then m_wx mo + m_ww mo - x else m_ww mo - mw);
                       h = int_of_uint (uint_of_int (m_wh mo) div int n);
                       rh = int_of_uint (uint_of_int (m_wh mo) mod int n);
                       (h, rh) = (if h < bh s1 then (m_wh mo, 0) else (h, rh))
                   in Some (tile_loop cfg m n x w h s1 y rh 0 (nexttiled s1 cs)))
     }"


text \<open>
  \<^verbatim>\<open>mirrortile\<close>: the transpose of \<^verbatim>\<open>tile\<close>.  Its loop, started at the client
  \<open>c\<close> with the loop variables \<open>x\<close>, \<open>rw\<close> and \<open>i\<close>:
\<close>

function mirrortile_loop ::
  "Config \<Rightarrow> mid \<Rightarrow> nat \<Rightarrow> int \<Rightarrow> int \<Rightarrow> int \<Rightarrow> State \<Rightarrow> int \<Rightarrow> int \<Rightarrow> nat \<Rightarrow> cid list \<Rightarrow> State"
where
  "mirrortile_loop cfg m n y w h s x rw i [] = s"
| "mirrortile_loop cfg m n y w h s x rw i (c # cs) =
     (let mo = monitor_at s m;
          bw = c_bw (client_at s c);
          s' = resize cfg s c x y
                 ((if i + 1 = n then m_wx mo + m_mw mo - x - 2 * bw else w - 2 * bw)
                    + (if 0 < rw then 1 else 0))
                 (h - 2 * bw)
                 False;
          x' = (if w \<noteq> m_ww (monitor_at s' m)
                then c_x (client_at s' c) + WIDTH (client_at s' c) else x)
      in mirrortile_loop cfg m n y w h s' x' (rw - 1) (i + 1) (nexttiled s' cs))"
  by pat_completeness auto
termination
proof (relation "measure (\<lambda>(cfg, m, n, y, w, h, s, x, rw, i, cs). length cs)")
  have len: "length (nexttiled s cs) \<le> length cs" for s cs
    by (induction cs) auto
  show "\<And>cfg m n y w h s x rw i c cs xa xb xc xd.
       ((cfg, m, n, y, w, h, xc, xd, rw - 1, i + 1, nexttiled xc cs),
        (cfg, m, n, y, w, h, s, x, rw, i, c # cs))
       \<in> measure (\<lambda>(cfg, m, n, y, w, h, s, x, rw, i, cs). length cs)"
    by (simp add: len less_Suc_eq_le)
qed simp

definition mirrortile :: "Config \<Rightarrow> State \<Rightarrow> mid \<Rightarrow> State option" where
  "mirrortile cfg s m =
     do {
       v \<leftarrow> SELVIEW s m;
       let n = count_tiled s (nexttiled s (v_clients v)) 0;
       if n = 0 then Some s
       else
         (case nexttiled s (v_clients v) of
            [] \<Rightarrow> None
          | c # cs \<Rightarrow>
              let mo = monitor_at s m;
                  mh = int_of_float (fmul (v_mfact v) (float_of_int (m_wh mo)));
                  bw = c_bw (client_at s c);
                  s1 = resize cfg s c (m_wx mo) (m_wy mo)
                         (m_ww mo - 2 * bw) ((if n = 1 then m_wh mo else mh) - 2 * bw) False;
                  n = n - 1
              in if n = 0 then Some s1
                 else
                   let mo = monitor_at s1 m;
                       cl = client_at s1 c;
                       x = m_wx mo;
                       y = (if c_y cl + c_h cl < m_wy mo + mh
                            then c_y cl + c_h cl + 2 * c_bw cl else m_wy mo + mh);
                       w = int_of_uint (uint_of_int (m_ww mo) div int n);
                       rw = int_of_uint (uint_of_int (m_ww mo) mod int n);
                       h = (if c_y cl + c_h cl < m_wy mo + mh
                            then m_wy mo + m_wh mo - y else m_wh mo - mh)
                   in Some (mirrortile_loop cfg m n y w h s1 x rw 0 (nexttiled s1 cs)))
     }"

text \<open>\<^verbatim>\<open>snprintf(m->ltsymbol, sizeof m->ltsymbol, "[%d]", n)\<close> prints \<open>n\<close> in decimal.\<close>

fun string_of_nat :: "nat \<Rightarrow> string" where
  "string_of_nat n =
     (if n < 10 then [char_of (48 + n)]
      else string_of_nat (n div 10) @ [char_of (48 + n mod 10)])"

declare string_of_nat.simps [simp del]

function monocle_loop :: "Config \<Rightarrow> mid \<Rightarrow> State \<Rightarrow> cid list \<Rightarrow> State" where
  "monocle_loop cfg m s [] = s"
| "monocle_loop cfg m s (c # cs) =
     (let mo = monitor_at s m;
          bw = c_bw (client_at s c);
          s' = resize cfg s c (m_wx mo) (m_wy mo) (m_ww mo - 2 * bw) (m_wh mo - 2 * bw) False
      in monocle_loop cfg m s' (nexttiled s' cs))"
  by pat_completeness auto
termination
proof (relation "measure (\<lambda>(cfg, m, s, cs). length cs)")
  have len: "length (nexttiled s cs) \<le> length cs" for s cs
    by (induction cs) auto
  show "\<And>cfg m s c cs xa xb xc.
       ((cfg, m, xc, nexttiled xc cs), (cfg, m, s, c # cs))
       \<in> measure (\<lambda>(cfg, m, s, cs). length cs)"
    by (simp add: len less_Suc_eq_le)
qed simp

definition monocle :: "Config \<Rightarrow> State \<Rightarrow> mid \<Rightarrow> State option" where
  "monocle cfg s m =
     do {
       v \<leftarrow> SELVIEW s m;
       let n = length (v_clients v);
       let s = (if 0 < n
                then s\<lparr>monitor_at := (monitor_at s)
                        (m := (monitor_at s m)\<lparr>m_ltsymbol := take 15 (''['' @ string_of_nat n @ '']'')\<rparr>)\<rparr>
                else s);
       Some (monocle_loop cfg m s (nexttiled s (v_clients v)))
     }"

section \<open>Client lists and focus\<close>

text \<open>
  \<^verbatim>\<open>detach\<close> and \<^verbatim>\<open>detachstack\<close> walk the chain until they meet \<open>c\<close>; when \<open>c\<close>
  is not in the chain the walk dereferences NULL, which the model reports as \<open>None\<close>.
\<close>

definition attach :: "State \<Rightarrow> cid \<Rightarrow> State option" where
  "attach s c =
     do {
       let cl = client_at s c;
       v \<leftarrow> getview (monitor_at s (c_mon cl)) (c_view cl);
       Some (setview s (c_mon cl) (c_view cl) (v\<lparr>v_clients := c # v_clients v\<rparr>))
     }"

definition attachstack :: "State \<Rightarrow> cid \<Rightarrow> State option" where
  "attachstack s c =
     do {
       let cl = client_at s c;
       v \<leftarrow> getview (monitor_at s (c_mon cl)) (c_view cl);
       Some (setview s (c_mon cl) (c_view cl) (v\<lparr>v_stack := c # v_stack v\<rparr>))
     }"

definition detach :: "State \<Rightarrow> cid \<Rightarrow> State option" where
  "detach s c =
     do {
       let cl = client_at s c;
       v \<leftarrow> getview (monitor_at s (c_mon cl)) (c_view cl);
       if c \<in> set (v_clients v)
       then Some (setview s (c_mon cl) (c_view cl) (v\<lparr>v_clients := remove1 c (v_clients v)\<rparr>))
       else None
     }"

definition head :: "cid list \<Rightarrow> cid option" where
  "head cs = (case cs of [] \<Rightarrow> None | c # _ \<Rightarrow> Some c)"

definition detachstack :: "State \<Rightarrow> cid \<Rightarrow> State option" where
  "detachstack s c =
     do {
       let cl = client_at s c;
       v \<leftarrow> getview (monitor_at s (c_mon cl)) (c_view cl);
       if c \<in> set (v_stack v)
       then
         let v = v\<lparr>v_stack := remove1 c (v_stack v)\<rparr>;
             v = (if v_sel v = Some c then v\<lparr>v_sel := head (v_stack v)\<rparr> else v)
         in Some (setview s (c_mon cl) (c_view cl) v)
       else None
     }"

definition clearurgent :: "State \<Rightarrow> cid \<Rightarrow> State" where
  "clearurgent s c = setclient s c ((client_at s c)\<lparr>c_isurgent := False\<rparr>)"

text \<open>
  \<^verbatim>\<open>focus\<close>; the argument is \<open>None\<close> for NULL.  \<^verbatim>\<open>unfocus\<close>,
  \<^verbatim>\<open>grabbuttons\<close>, \<^verbatim>\<open>drawbars\<close> and the Xlib calls only talk to the X server and
  draw: they change none of the modelled variables.
\<close>

definition focus :: "State \<Rightarrow> cid option \<Rightarrow> State option" where
  "focus s c0 =
     do {
       v \<leftarrow> SELVIEW s (selmon s);
       let c = (case c0 of None \<Rightarrow> head (v_stack v) | Some c \<Rightarrow> Some c);
       s \<leftarrow> (case c of
               Some ci \<Rightarrow>
                 do {
                   let s = (if c_mon (client_at s ci) \<noteq> selmon s
                            then s\<lparr>selmon := c_mon (client_at s ci)\<rparr> else s);
                   let s = (if c_isurgent (client_at s ci) then clearurgent s ci else s);
                   s \<leftarrow> detachstack s ci;
                   attachstack s ci
                 }
             | None \<Rightarrow> Some s);
       v \<leftarrow> SELVIEW s (selmon s);
       Some (setview s (selmon s) (m_selview (monitor_at s (selmon s))) (v\<lparr>v_sel := c\<rparr>))
     }"

section \<open>Arranging a monitor\<close>

fun showhide :: "Config \<Rightarrow> State \<Rightarrow> cid list \<Rightarrow> State option" where
  "showhide cfg s [] = Some s"
| "showhide cfg s (c # cs) =
     do {
       let cl = client_at s c;
       v \<leftarrow> getview (monitor_at s (c_mon cl)) (c_view cl);
       let s = (if \<not> (\<not> c_isfloating cl \<and> lt_arrange (v_lt v) \<noteq> None)
                then resize cfg s c (c_x cl) (c_y cl) (c_w cl) (c_h cl) False else s);
       showhide cfg s cs
     }"

text \<open>\<^verbatim>\<open>restack\<close> redraws the bar and reorders the windows in the X server only.\<close>

definition arrangemon :: "Config \<Rightarrow> State \<Rightarrow> mid \<Rightarrow> State option" where
  "arrangemon cfg s m =
     do {
       v \<leftarrow> SELVIEW s m;
       let s = s\<lparr>monitor_at := (monitor_at s)
                  (m := (monitor_at s m)\<lparr>m_ltsymbol := take 16 (lt_symbol (v_lt v))\<rparr>)\<rparr>;
       (case lt_arrange (v_lt v) of
          None \<Rightarrow> Some s
        | Some Tile \<Rightarrow> tile cfg s m
        | Some MirrorTile \<Rightarrow> mirrortile cfg s m
        | Some Monocle \<Rightarrow> monocle cfg s m)
     }"

fun showhide_all :: "Config \<Rightarrow> State \<Rightarrow> mid list \<Rightarrow> State option" where
  "showhide_all cfg s [] = Some s"
| "showhide_all cfg s (m # ms) =
     do {
       v \<leftarrow> SELVIEW s m;
       s \<leftarrow> showhide cfg s (v_stack v);
       showhide_all cfg s ms
     }"

fun arrangemon_all :: "Config \<Rightarrow> State \<Rightarrow> mid list \<Rightarrow> State option" where
  "arrangemon_all cfg s [] = Some s"
| "arrangemon_all cfg s (m # ms) =
     do {
       s \<leftarrow> arrangemon cfg s m;
       arrangemon_all cfg s ms
     }"

definition arrange :: "Config \<Rightarrow> State \<Rightarrow> mid option \<Rightarrow> State option" where
  "arrange cfg s m0 =
     do {
       s \<leftarrow> (case m0 of
               Some m \<Rightarrow> do { v \<leftarrow> SELVIEW s m; showhide cfg s (v_stack v) }
             | None \<Rightarrow> showhide_all cfg s (mons s));
       s \<leftarrow> focus s None;
       (case m0 of
          Some m \<Rightarrow> arrangemon cfg s m
        | None \<Rightarrow> arrangemon_all cfg s (mons s))
     }"


section \<open>What the X server tells\<close>

text \<open>
  The functions below ask the X server about a window.  Its answers are a parameter:
  the text \<^verbatim>\<open>updatetitle\<close> reads into \<^verbatim>\<open>c->name\<close>, the window of
  \<^verbatim>\<open>XGetTransientForHint\<close>, the hints of \<^verbatim>\<open>XGetWMNormalHints\<close> (\<open>None\<close> when the
  call fails), whether the \<^verbatim>\<open>XUrgencyHint\<close> flag of \<^verbatim>\<open>XGetWMHints\<close> is set
  (\<open>None\<close> when the call returns NULL), and the name of the root window.  The flags of
  \<^verbatim>\<open>XSizeHints\<close> that dwm.c tests are booleans.
\<close>

record XSizeHints =
  PBaseSize :: bool
  PMinSize :: bool
  PResizeInc :: bool
  PMaxSize :: bool
  PAspect :: bool
  base_width :: int
  base_height :: int
  min_width :: int
  min_height :: int
  width_inc :: int
  height_inc :: int
  max_width :: int
  max_height :: int
  min_aspect_x :: int
  min_aspect_y :: int
  max_aspect_x :: int
  max_aspect_y :: int

record XWindowAttributes =
  wa_x :: int
  wa_y :: int
  wa_width :: int
  wa_height :: int
  wa_border_width :: int

record XServer =
  x_name :: "window \<Rightarrow> string"
  x_transient_for :: "window \<Rightarrow> window option"
  x_normal_hints :: "window \<Rightarrow> XSizeHints option"
  x_urgency_hint :: "window \<Rightarrow> bool option"
  x_root_name :: "string option"

section \<open>Managing windows\<close>

definition updatesizehints :: "XServer \<Rightarrow> Client \<Rightarrow> Client" where
  "updatesizehints X c =
     (let none = \<lparr>PBaseSize = False, PMinSize = False, PResizeInc = False, PMaxSize = False,
                   PAspect = False, base_width = 0, base_height = 0, min_width = 0,
                   min_height = 0, width_inc = 0, height_inc = 0, max_width = 0, max_height = 0,
                   min_aspect_x = 0, min_aspect_y = 0, max_aspect_x = 0, max_aspect_y = 0\<rparr>;
          size = (case x_normal_hints X (c_win c) of None \<Rightarrow> none | Some sz \<Rightarrow> sz);
          c = (if PBaseSize size then c\<lparr>c_basew := base_width size, c_baseh := base_height size\<rparr>
               else if PMinSize size then c\<lparr>c_basew := min_width size, c_baseh := min_height size\<rparr>
               else c\<lparr>c_basew := 0, c_baseh := 0\<rparr>);
          c = (if PResizeInc size then c\<lparr>c_incw := width_inc size, c_inch := height_inc size\<rparr>
               else c\<lparr>c_incw := 0, c_inch := 0\<rparr>);
          c = (if PMaxSize size then c\<lparr>c_maxw := max_width size, c_maxh := max_height size\<rparr>
               else c\<lparr>c_maxw := 0, c_maxh := 0\<rparr>);
          c = (if PMinSize size then c\<lparr>c_minw := min_width size, c_minh := min_height size\<rparr>
               else if PBaseSize size then c\<lparr>c_minw := base_width size, c_minh := base_height size\<rparr>
               else c\<lparr>c_minw := 0, c_minh := 0\<rparr>);
          c = (if PAspect size
               then c\<lparr>c_mina := fdivp 24 (float_of_int (min_aspect_y size)) (float_of_int (min_aspect_x size)),
                      c_maxa := fdivp 24 (float_of_int (max_aspect_x size)) (float_of_int (max_aspect_y size))\<rparr>
               else c\<lparr>c_maxa := Fl 0 0, c_mina := Fl 0 0\<rparr>)
      in c\<lparr>c_isfixed := (c_maxw c \<noteq> 0 \<and> c_minw c \<noteq> 0 \<and> c_maxh c \<noteq> 0 \<and> c_minh c \<noteq> 0
                          \<and> c_maxw c = c_minw c \<and> c_maxh c = c_minh c)\<rparr>)"

text \<open>
  \<^verbatim>\<open>gettextprop\<close> copies at most \<^verbatim>\<open>size - 1\<close> bytes of the property into the buffer:
  255 bytes for \<^verbatim>\<open>c->name\<close> and for \<^verbatim>\<open>stext\<close>, both declared \<^verbatim>\<open>char [256]\<close>.
\<close>

definition updatetitle :: "XServer \<Rightarrow> Client \<Rightarrow> Client" where
  "updatetitle X c =
     (let nm = take 255 (x_name X (c_win c)) in c\<lparr>c_name := (if nm = [] then ''broken'' else nm)\<rparr>)"

text \<open>
  \<^verbatim>\<open>wintoclient\<close> scans the monitors, the nine views of each and the clients of
  each view, in this order.
\<close>

definition wintoclient :: "State \<Rightarrow> window \<Rightarrow> cid option" where
  "wintoclient s w =
     find (\<lambda>c. w = c_win (client_at s c))
       (concat (map (\<lambda>m. concat (map v_clients (take NUMVIEWS (m_views (monitor_at s m))))) (mons s)))"

text \<open>The zeroed \<^verbatim>\<open>static Client cz\<close> of \<^verbatim>\<open>manage\<close>.\<close>

definition cz :: Client where
  "cz = \<lparr>c_name = [], c_mina = Fl 0 0, c_maxa = Fl 0 0, c_x = 0, c_y = 0, c_w = 0, c_h = 0,
          c_oldx = 0, c_oldy = 0, c_oldw = 0, c_oldh = 0, c_basew = 0, c_baseh = 0,
          c_incw = 0, c_inch = 0, c_maxw = 0, c_maxh = 0, c_minw = 0, c_minh = 0,
          c_bw = 0, c_oldbw = 0, c_isfixed = False, c_isfloating = False, c_isurgent = False,
          c_oldstate = False, c_mon = 0, c_view = 0, c_win = 0\<rparr>"

text \<open>
  The client that \<^verbatim>\<open>manage\<close> builds before it attaches it, in three steps:
  \<open>manage_init\<close> is \<^verbatim>\<open>manage\<close> from \<^verbatim>\<open>*c = cz\<close> to the assignment of
  \<^verbatim>\<open>c->oldbw\<close>; \<open>manage_place\<close> is the conditional statement after it, which
  places the client and sets its border width; \<open>manage_client\<close> adds
  \<^verbatim>\<open>updatesizehints\<close> and the assignment of \<^verbatim>\<open>isfloating\<close> after it.
\<close>

definition manage_init :: "XServer \<Rightarrow> State \<Rightarrow> window \<Rightarrow> XWindowAttributes \<Rightarrow> Client" where
  "manage_init X s w wa =
     (let c = cz\<lparr>c_win := w\<rparr>;
          c = updatetitle X c;
          trans = x_transient_for X w;
          t = (case trans of None \<Rightarrow> None | Some tw \<Rightarrow> wintoclient s tw);
          c = c\<lparr>c_mon := (case t of None \<Rightarrow> selmon s | Some tc \<Rightarrow> c_mon (client_at s tc))\<rparr>;
          mo = monitor_at s (c_mon c);
          c = c\<lparr>c_view := m_selview mo\<rparr>
      in c\<lparr>c_x := wa_x wa + m_wx mo, c_oldx := wa_x wa + m_wx mo,
            c_y := wa_y wa + m_wy mo, c_oldy := wa_y wa + m_wy mo,
            c_w := wa_width wa, c_oldw := wa_width wa,
            c_h := wa_height wa, c_oldh := wa_height wa,
            c_oldbw := wa_border_width wa\<rparr>)"

definition manage_place :: "Config \<Rightarrow> State \<Rightarrow> Client \<Rightarrow> Client" where
  "manage_place cfg s c0 =
     (let mo = monitor_at s (c_mon c0)
      in if c_w c0 = m_mw mo \<and> c_h c0 = m_mh mo
         then c0\<lparr>c_isfloating := True, c_x := m_mx mo, c_y := m_my mo, c_bw := 0\<rparr>
         else
           let c = (if m_mx mo + m_mw mo < c_x c0 + WIDTH c0
                    then c0\<lparr>c_x := m_mx mo + m_mw mo - WIDTH c0\<rparr> else c0);
               c = (if m_my mo + m_mh mo < c_y c + HEIGHT c
                    then c\<lparr>c_y := m_my mo + m_mh mo - HEIGHT c\<rparr> else c);
               c = c\<lparr>c_x := max (c_x c) (m_mx mo)\<rparr>;
               c = c\<lparr>c_y := max (c_y c)
                      (if m_by mo = 0 \<and> m_wx mo \<le> c_x c + c_div (c_w c) 2
                          \<and> c_x c + c_div (c_w c) 2 < m_wx mo + m_ww mo
                       then bh s else m_my mo)\<rparr>
           in c\<lparr>c_bw := borderpx cfg\<rparr>)"

text \<open>
  The local \<^verbatim>\<open>trans\<close> of \<^verbatim>\<open>manage\<close> starts as the X constant \<^verbatim>\<open>None\<close>, here
  \<open>XNone\<close>, and holds the window of the hint when \<^verbatim>\<open>XGetTransientForHint\<close> succeeds;
  the assignment of \<^verbatim>\<open>isfloating\<close> tests that value.
\<close>

definition XNone :: window where
  "XNone = 0"

definition manage_client :: "Config \<Rightarrow> XServer \<Rightarrow> State \<Rightarrow> window \<Rightarrow> XWindowAttributes \<Rightarrow> Client" where
  "manage_client cfg X s w wa =
     (let trans = (case x_transient_for X w of None \<Rightarrow> XNone | Some tw \<Rightarrow> tw);
          c = updatesizehints X (manage_place cfg s (manage_init X s w wa))
      in if \<not> c_isfloating c
         then c\<lparr>c_oldstate := (trans \<noteq> XNone \<or> c_isfixed c),
                c_isfloating := (trans \<noteq> XNone \<or> c_isfixed c)\<rparr>
         else c)"

text \<open>
  \<^verbatim>\<open>manage\<close>; \<open>c\<close> is the address \<^verbatim>\<open>malloc\<close> returns.
\<close>

definition manage :: "Config \<Rightarrow> XServer \<Rightarrow> State \<Rightarrow> cid \<Rightarrow> window \<Rightarrow> XWindowAttributes \<Rightarrow> State option" where
  "manage cfg X s c w wa =
     do {
       let s = setclient s c (manage_client cfg X s w wa);
       s \<leftarrow> attach s c;
       s \<leftarrow> attachstack s c;
       arrange cfg s (Some (c_mon (client_at s c)))
     }"

definition unmanage :: "Config \<Rightarrow> State \<Rightarrow> cid \<Rightarrow> bool \<Rightarrow> State option" where
  "unmanage cfg s c destroyed =
     do {
       let m = c_mon (client_at s c);
       s \<leftarrow> detach s c;
       s \<leftarrow> detachstack s c;
       s \<leftarrow> focus s None;
       arrange cfg s (Some m)
     }"

section \<open>Actions\<close>

text \<open>
  \<^verbatim>\<open>dirtomon\<close>: the monitor after or before \<^verbatim>\<open>selmon\<close> in the chain \<^verbatim>\<open>mons\<close>,
  cyclically.  \<open>mon_after\<close> is \<^verbatim>\<open>selmon->next\<close> and \<open>mon_before\<close> is the walk
  \<^verbatim>\<open>for(m = mons; m->next != selmon; m = m->next)\<close>, which dereferences NULL when
  it does not meet \<^verbatim>\<open>selmon\<close>.
\<close>

fun mon_after :: "mid \<Rightarrow> mid list \<Rightarrow> mid list option" where
  "mon_after m [] = None"
| "mon_after m (a # ms) = (if a = m then Some ms else mon_after m ms)"

fun mon_before :: "mid \<Rightarrow> mid list \<Rightarrow> mid option" where
  "mon_before m [] = None"
| "mon_before m [a] = None"
| "mon_before m (a # b # ms) = (if b = m then Some a else mon_before m (b # ms))"

definition dirtomon :: "State \<Rightarrow> int \<Rightarrow> mid option" where
  "dirtomon s dir =
     (if 0 < dir then
        (case mon_after (selmon s) (mons s) of
           None \<Rightarrow> None
         | Some [] \<Rightarrow> head (mons s)
         | Some (m # _) \<Rightarrow> Some m)
      else
        (case mons s of
           [] \<Rightarrow> None
         | a # ms \<Rightarrow> if selmon s = a then Some (last (a # ms)) else mon_before (selmon s) (a # ms)))"

text \<open>
  \<^verbatim>\<open>focusmon\<close>: the argument of \<^verbatim>\<open>unfocus\<close> is read from the selected view of the
  monitor that loses the focus.
\<close>

definition focusmon :: "State \<Rightarrow> int \<Rightarrow> State option" where
  "focusmon s dir =
     do {
       m \<leftarrow> dirtomon s dir;
       if m \<noteq> selmon s
       then do { v \<leftarrow> SELVIEW s (selmon s); focus (s\<lparr>selmon := m\<rparr>) None }
       else Some s
     }"

definition sendmon :: "Config \<Rightarrow> State \<Rightarrow> cid \<Rightarrow> mid \<Rightarrow> State option" where
  "sendmon cfg s c m =
     (if c_mon (client_at s c) \<noteq> m then
        do {
          s \<leftarrow> detach s c;
          s \<leftarrow> detachstack s c;
          let s = setclient s c ((client_at s c)\<lparr>c_mon := m\<rparr>);
          let s = setclient s c ((client_at s c)\<lparr>c_view := m_selview (monitor_at s m)\<rparr>);
          s \<leftarrow> attach s c;
          s \<leftarrow> attachstack s c;
          s \<leftarrow> focus s None;
          arrange cfg s None
        }
      else Some s)"

definition tagmon :: "Config \<Rightarrow> State \<Rightarrow> int \<Rightarrow> State option" where
  "tagmon cfg s dir =
     do {
       v \<leftarrow> SELVIEW s (selmon s);
       (case v_sel v of
          None \<Rightarrow> Some s
        | Some c \<Rightarrow> do { m \<leftarrow> dirtomon s dir; sendmon cfg s c m })
     }"

definition tag :: "Config \<Rightarrow> State \<Rightarrow> nat \<Rightarrow> State option" where
  "tag cfg s ui =
     do {
       v \<leftarrow> SELVIEW s (selmon s);
       (case v_sel v of
          None \<Rightarrow> Some s
        | Some c \<Rightarrow>
            do {
              s \<leftarrow> detach s c;
              s \<leftarrow> detachstack s c;
              let s = setclient s c ((client_at s c)\<lparr>c_view := ui\<rparr>);
              s \<leftarrow> attach s c;
              s \<leftarrow> attachstack s c;
              arrange cfg s (Some (selmon s))
            })
     }"

definition togglefloating :: "Config \<Rightarrow> State \<Rightarrow> State option" where
  "togglefloating cfg s =
     do {
       v \<leftarrow> SELVIEW s (selmon s);
       (case v_sel v of
          None \<Rightarrow> Some s
        | Some c \<Rightarrow>
            do {
              let cl = client_at s c;
              let s = setclient s c (cl\<lparr>c_isfloating := (\<not> c_isfloating cl \<or> c_isfixed cl)\<rparr>);
              let cl = client_at s c;
              let s = (if c_isfloating cl
                       then resize cfg s c (c_x cl) (c_y cl) (c_w cl) (c_h cl) False else s);
              arrange cfg s (Some (selmon s))
            })
     }"

text \<open>
  \<^verbatim>\<open>setmfact\<close>; the argument is \<open>None\<close> for a NULL \<^verbatim>\<open>arg\<close> and the \<^verbatim>\<open>float\<close>
  \<^verbatim>\<open>arg->f\<close> otherwise.  The comparisons are made in \<^verbatim>\<open>double\<close>, against the
  literals \<^verbatim>\<open>-1.0\<close>, \<^verbatim>\<open>1.0\<close>, \<^verbatim>\<open>0.1\<close> and \<^verbatim>\<open>0.9\<close>; the sum is a \<^verbatim>\<open>float\<close>.
  \<open>mfact_in_range\<close> is the test \<^verbatim>\<open>0.1 <= f && f <= 0.9\<close>.
\<close>

definition mfact_in_range :: "cfloat \<Rightarrow> bool" where
  "mfact_in_range f = (fle (dlit 1 10) f \<and> fle f (dlit 9 10))"

definition setmfact :: "Config \<Rightarrow> State \<Rightarrow> cfloat option \<Rightarrow> State option" where
  "setmfact cfg s arg =
     (case arg of
        None \<Rightarrow> Some s
      | Some af \<Rightarrow>
          if flt (Fl (- 1) 0) af \<and> flt af (Fl 1 0) then
            do {
              v \<leftarrow> SELVIEW s (selmon s);
              if lt_arrange (v_lt v) \<noteq> None then
                let f = faddp 24 af (v_mfact v)
                in if mfact_in_range f
                   then arrange cfg
                          (setview s (selmon s) (m_selview (monitor_at s (selmon s))) (v\<lparr>v_mfact := f\<rparr>))
                          (Some (selmon s))
                   else Some s
              else Some s
            }
          else Some s)"

text \<open>
  \<^verbatim>\<open>setlayout\<close>; the argument is the entry of the layout table that \<^verbatim>\<open>arg->v\<close>
  points to.
\<close>

definition setlayout :: "Config \<Rightarrow> State \<Rightarrow> Layout \<Rightarrow> State option" where
  "setlayout cfg s l =
     do {
       v \<leftarrow> SELVIEW s (selmon s);
       let s = setview s (selmon s) (m_selview (monitor_at s (selmon s))) (v\<lparr>v_lt := l\<rparr>);
       let s = s\<lparr>monitor_at := (monitor_at s)
                  (selmon s := (monitor_at s (selmon s))\<lparr>m_ltsymbol := take 16 (lt_symbol l)\<rparr>)\<rparr>;
       v \<leftarrow> SELVIEW s (selmon s);
       if v_sel v \<noteq> None then arrange cfg s (Some (selmon s)) else Some s
     }"

text \<open>
  \<^verbatim>\<open>createmon\<close> fills some members of the memory \<^verbatim>\<open>malloc\<close> returns, here
  \<open>raw\<close>, and leaves the others as they are.
\<close>

definition createmon :: "Config \<Rightarrow> Monitor \<Rightarrow> Monitor option" where
  "createmon cfg raw =
     (case layouts cfg of
        [] \<Rightarrow> None
      | l0 # _ \<Rightarrow>
          Some (raw\<lparr>m_showbar := showbar cfg, m_topbar := topbar cfg,
                    m_ltsymbol := take 16 (lt_symbol l0),
                    m_views := map (\<lambda>v. v\<lparr>v_mfact := mfact cfg, v_lt := l0\<rparr>) (m_views raw)\<rparr>))"

section \<open>Event handlers\<close>

datatype atom =
  XA_WM_NAME | XA_WM_TRANSIENT_FOR | XA_WM_NORMAL_HINTS | XA_WM_HINTS
  | NetWMName | NetWMState | NetWMFullscreen | OtherAtom nat

record XClientMessageEvent =
  cme_window :: window
  cme_message_type :: atom
  cme_data0 :: int
  cme_data1 :: atom

text \<open>
  \<^verbatim>\<open>clientmessage\<close>.  \<open>enter_fullscreen\<close> is the branch for a non-zero
  \<^verbatim>\<open>data.l[0]\<close>; \<open>leave_fullscreen\<close> is the other branch up to the call of
  \<^verbatim>\<open>arrange\<close>.
\<close>

definition enter_fullscreen :: "State \<Rightarrow> cid \<Rightarrow> State" where
  "enter_fullscreen s c =
     (let cl = client_at s c;
          cl = cl\<lparr>c_oldstate := c_isfloating cl\<rparr>;
          cl = cl\<lparr>c_oldbw := c_bw cl\<rparr>;
          cl = cl\<lparr>c_bw := 0\<rparr>;
          cl = cl\<lparr>c_isfloating := True\<rparr>;
          s = setclient s c cl;
          mo = monitor_at s (c_mon cl)
      in resizeclient s c (m_mx mo) (m_my mo) (m_mw mo) (m_mh mo))"

definition leave_fullscreen :: "State \<Rightarrow> cid \<Rightarrow> State" where
  "leave_fullscreen s c =
     (let cl = client_at s c;
          cl = cl\<lparr>c_isfloating := c_oldstate cl\<rparr>;
          cl = cl\<lparr>c_bw := c_oldbw cl\<rparr>;
          cl = cl\<lparr>c_x := c_oldx cl\<rparr>;
          cl = cl\<lparr>c_y := c_oldy cl\<rparr>;
          cl = cl\<lparr>c_w := c_oldw cl\<rparr>;
          cl = cl\<lparr>c_h := c_oldh cl\<rparr>;
          s = setclient s c cl
      in resizeclient s c (c_x cl) (c_y cl) (c_w cl) (c_h cl))"

definition clientmessage :: "Config \<Rightarrow> State \<Rightarrow> XClientMessageEvent \<Rightarrow> State option" where
  "clientmessage cfg s cme =
     (case wintoclient s (cme_window cme) of
        None \<Rightarrow> Some s
      | Some c \<Rightarrow>
          if cme_message_type cme = NetWMState \<and> cme_data1 cme = NetWMFullscreen then
            if cme_data0 cme \<noteq> 0 then Some (enter_fullscreen s c)
            else arrange cfg (leave_fullscreen s c) (Some (c_mon (client_at (leave_fullscreen s c) c)))
          else Some s)"

record XPropertyEvent =
  pe_window :: window
  pe_atom :: atom
  pe_deleted :: bool

definition updatestatus :: "Config \<Rightarrow> XServer \<Rightarrow> State \<Rightarrow> State" where
  "updatestatus cfg X s =
     s\<lparr>stext := (case x_root_name X of None \<Rightarrow> ''myDWM-'' @ VERSION cfg | Some nm \<Rightarrow> take 255 nm)\<rparr>"

definition updatewmhints :: "XServer \<Rightarrow> State \<Rightarrow> cid \<Rightarrow> State option" where
  "updatewmhints X s c =
     (case x_urgency_hint X (c_win (client_at s c)) of
        None \<Rightarrow> Some s
      | Some urgent \<Rightarrow>
          do {
            v \<leftarrow> SELVIEW s (selmon s);
            Some (if v_sel v = Some c \<and> urgent then s
                  else setclient s c ((client_at s c)\<lparr>c_isurgent := urgent\<rparr>))
          })"

text \<open>
  \<^verbatim>\<open>propertynotify\<close>.  Its local \<^verbatim>\<open>trans\<close> is not initialised, and
  \<^verbatim>\<open>XGetTransientForHint\<close> leaves it so when the window has no such hint: \<open>junk\<close>
  is the value it holds then.  The \<^verbatim>\<open>switch\<close> on the atom is a chain of tests.
\<close>

definition propertynotify_transient :: "Config \<Rightarrow> XServer \<Rightarrow> State \<Rightarrow> cid \<Rightarrow> window \<Rightarrow> State option" where
  "propertynotify_transient cfg X s c junk =
     (let cl = client_at s c;
          trans = (case x_transient_for X (c_win cl) of None \<Rightarrow> junk | Some tw \<Rightarrow> tw)
      in if \<not> c_isfloating cl then
           let s = setclient s c (cl\<lparr>c_isfloating := (wintoclient s trans \<noteq> None)\<rparr>)
           in if c_isfloating (client_at s c)
              then arrange cfg s (Some (c_mon (client_at s c))) else Some s
         else Some s)"

definition propertynotify ::
  "Config \<Rightarrow> XServer \<Rightarrow> State \<Rightarrow> XPropertyEvent \<Rightarrow> window \<Rightarrow> State option"
where
  "propertynotify cfg X s ev junk =
     (if pe_window ev = root s \<and> pe_atom ev = XA_WM_NAME then Some (updatestatus cfg X s)
      else if pe_deleted ev then Some s
      else
        (case wintoclient s (pe_window ev) of
           None \<Rightarrow> Some s
         | Some c \<Rightarrow>
             do {
               s \<leftarrow> (if pe_atom ev = XA_WM_TRANSIENT_FOR then propertynotify_transient cfg X s c junk
                     else if pe_atom ev = XA_WM_NORMAL_HINTS
                       then Some (setclient s c (updatesizehints X (client_at s c)))
                     else if pe_atom ev = XA_WM_HINTS then updatewmhints X s c
                     else Some s);
               Some (if pe_atom ev = XA_WM_NAME \<or> pe_atom ev = NetWMName
                     then setclient s c (updatetitle X (client_at s c)) else s)
             }))"

section \<open>The bar\<close>

text \<open>
  Of \<^verbatim>\<open>drawbar\<close> the model keeps what is drawn for the tag labels: for the tag
  \<open>i\<close>, whether the label has the colours of the selected view, whether its text is
  inverted, and the square \<^verbatim>\<open>drawsquare\<close> draws on it.
\<close>

datatype square = FilledSquare | EmptySquare | NoSquare

definition drawsquare :: "bool \<Rightarrow> bool \<Rightarrow> bool \<Rightarrow> square \<times> bool" where
  "drawsquare filled emp invert =
     (if filled then (FilledSquare, invert)
      else if emp then (EmptySquare, invert)
      else (NoSquare, invert))"

definition hasurgentclient :: "State \<Rightarrow> View \<Rightarrow> bool" where
  "hasurgentclient s v = list_ex (\<lambda>c. c_isurgent (client_at s c)) (v_clients v)"

record TagLabel =
  tl_selected :: bool
  tl_inverted :: bool
  tl_square :: square

definition drawbar_tag :: "State \<Rightarrow> mid \<Rightarrow> nat \<Rightarrow> TagLabel option" where
  "drawbar_tag s m i =
     do {
       v \<leftarrow> getview (monitor_at s m) i;
       let occ = (v_clients v = []);
       let urg = hasurgentclient s v;
       Some \<lparr>tl_selected = (i = m_selview (monitor_at s m)),
             tl_inverted = urg,
             tl_square = fst (drawsquare (m = selmon s \<and> v_sel v \<noteq> None \<and> i = m_selview (monitor_at s m))
                                occ urg)\<rparr>
     }"

definition drawbar_tags :: "State \<Rightarrow> mid \<Rightarrow> TagLabel option list" where
  "drawbar_tags s m = map (drawbar_tag s m) [0 ..< NUMVIEWS]"

section \<open>The command line\<close>

text \<open>
  What \<^verbatim>\<open>main\<close> does with its arguments: it leaves through \<^verbatim>\<open>die\<close>, which
  prints to the standard error stream and exits with \<^verbatim>\<open>EXIT_FAILURE\<close>, or it goes on
  to open the display and run the window manager.  An exit is the text written to the
  standard output, the text written to the standard error, and the status.  \<^verbatim>\<open>die\<close>
  hands its string to \<^verbatim>\<open>vfprintf\<close> as the format; the model writes the string as it
  is, which is what \<^verbatim>\<open>vfprintf\<close> does with a format that holds no percent sign.
\<close>

datatype outcome = Exit string string int | RunWM

definition EXIT_FAILURE :: int where
  "EXIT_FAILURE = 1"

definition die :: "string \<Rightarrow> outcome" where
  "die errstr = Exit [] errstr EXIT_FAILURE"

definition main :: "Config \<Rightarrow> string list \<Rightarrow> outcome" where
  "main cfg argv =
     (if length argv = 2 \<and> argv ! 1 = ''-v'' then
        die (''dwm-'' @ VERSION cfg @ '', '' @ [CHR 0xC2, CHR 0xA9]
               @ '' 2006-2010 dwm engineers, see LICENSE for details'' @ [CHR 0x0A])
      else if length argv \<noteq> 1 then die (''usage: dwm [-v]'' @ [CHR 0x0A])
      else RunWM)"


section \<open>What an arrangement changes\<close>

text \<open>
  Devices for the proofs.  \<open>frame s s'\<close>: the state \<open>s'\<close> differs from \<open>s\<close> at most in
  the rectangles and the urgency of clients, in the focus stacks and selections of
  views, in layout symbols and in the selected monitor.  \<open>arranges cfg s s'\<close>: \<open>s'\<close>
  comes from \<open>s\<close> by resizing tiled clients, by resizing clients to the rectangles
  they have, and by writing layout symbols.
\<close>

definition geometry_cleared :: "Client \<Rightarrow> Client" where
  "geometry_cleared c =
     c\<lparr>c_x := 0, c_y := 0, c_w := 0, c_h := 0, c_oldx := 0, c_oldy := 0, c_oldw := 0, c_oldh := 0,
       c_isurgent := False\<rparr>"

definition focus_cleared :: "View \<Rightarrow> View" where
  "focus_cleared v = v\<lparr>v_sel := None, v_stack := []\<rparr>"

definition views_cleared :: "Monitor \<Rightarrow> Monitor" where
  "views_cleared m = m\<lparr>m_ltsymbol := [], m_views := map focus_cleared (m_views m)\<rparr>"

definition frame :: "State \<Rightarrow> State \<Rightarrow> bool" where
  "frame s s' =
     (sw s' = sw s \<and> sh s' = sh s \<and> bh s' = bh s \<and> stext s' = stext s \<and> root s' = root s
      \<and> mons s' = mons s
      \<and> (\<forall>c. geometry_cleared (client_at s' c) = geometry_cleared (client_at s c))
      \<and> (\<forall>m. views_cleared (monitor_at s' m) = views_cleared (monitor_at s m)))"

inductive arranges :: "Config \<Rightarrow> State \<Rightarrow> State \<Rightarrow> bool" for cfg :: Config where
  arranges_refl: "arranges cfg s s"
| arranges_tiled:
    "\<not> c_isfloating (client_at s d) \<Longrightarrow> arranges cfg (resize cfg s d x y w h False) s'
     \<Longrightarrow> arranges cfg s s'"
| arranges_own:
    "arranges cfg (resize cfg s d (c_x (client_at s d)) (c_y (client_at s d))
                     (c_w (client_at s d)) (c_h (client_at s d)) False) s'
     \<Longrightarrow> arranges cfg s s'"
| arranges_ltsymbol:
    "arranges cfg (s\<lparr>monitor_at := (monitor_at s)(m := (monitor_at s m)\<lparr>m_ltsymbol := l\<rparr>)\<rparr>) s'
     \<Longrightarrow> arranges cfg s s'"


text \<open>
  A floating client without border at the origin of the screen of its monitor \<open>M\<close>,
  a screen that is not empty.
\<close>

definition at_origin :: "State \<Rightarrow> cid \<Rightarrow> mid \<Rightarrow> bool" where
  "at_origin s c M =
     (c_isfloating (client_at s c) \<and> c_bw (client_at s c) = 0 \<and> c_mon (client_at s c) = M
      \<and> c_x (client_at s c) = m_mx (monitor_at s M) \<and> c_y (client_at s c) = m_my (monitor_at s M)
      \<and> 0 \<le> m_mw (monitor_at s M) \<and> 0 \<le> m_mh (monitor_at s M))"

text \<open>A \<^verbatim>\<open>float\<close>: at most 24 significant bits.\<close>

fun is_float :: "cfloat \<Rightarrow> bool" where
  "is_float (Fl m e) = (\<bar>m\<bar> \<le> 2 ^ 24)"
| "is_float _ = True"

text \<open>A master fraction is valid when it passes the test of \<^verbatim>\<open>setmfact\<close> and is a
  \<^verbatim>\<open>float\<close>; every view of every monitor holds one.\<close>

definition mfact_valid :: "cfloat \<Rightarrow> bool" where
  "mfact_valid f = (mfact_in_range f \<and> is_float f)"

definition views_mfact_valid :: "State \<Rightarrow> bool" where
  "views_mfact_valid s =
     list_all (\<lambda>m. list_all (\<lambda>v. mfact_valid (v_mfact v)) (m_views (monitor_at s m))) (mons s)"

text \<open>
  The focus stack and the selected client of a view, and the property that the
  selected client of the selected view of a monitor is NULL or the head of the
  view's focus stack.
\<close>

definition stack_of :: "State \<Rightarrow> mid \<Rightarrow> nat \<Rightarrow> cid list" where
  "stack_of s m i = v_stack (m_views (monitor_at s m) ! i)"

definition sel_of :: "State \<Rightarrow> mid \<Rightarrow> nat \<Rightarrow> cid option" where
  "sel_of s m i = v_sel (m_views (monitor_at s m) ! i)"

definition sel_ok :: "State \<Rightarrow> mid \<Rightarrow> bool" where
  "sel_ok s m =
     (case SELVIEW s m of
        None \<Rightarrow> False
      | Some v \<Rightarrow> v_sel v = None \<or> v_sel v = head (v_stack v))"

text \<open>
  A state is well formed when \<^verbatim>\<open>selmon\<close> is in the chain \<^verbatim>\<open>mons\<close> and every monitor
  of the chain has its nine views, a selected view among them, and focus stacks without
  repetition whose clients carry the monitor and the view of the stack they are in.
  A client is unstacked when no focus stack of a monitor of the chain holds it, as the
  address that \<^verbatim>\<open>malloc\<close> returns in \<^verbatim>\<open>manage\<close>.
\<close>

definition view_wf :: "State \<Rightarrow> mid \<Rightarrow> nat \<Rightarrow> bool" where
  "view_wf s m i =
     (distinct (stack_of s m i)
      \<and> list_all (\<lambda>c. c_mon (client_at s c) = m \<and> c_view (client_at s c) = i) (stack_of s m i))"

definition mon_wf :: "State \<Rightarrow> mid \<Rightarrow> bool" where
  "mon_wf s m =
     (length (m_views (monitor_at s m)) = NUMVIEWS \<and> m_selview (monitor_at s m) < NUMVIEWS
      \<and> list_all (view_wf s m) [0..<NUMVIEWS])"

definition wellformed :: "State \<Rightarrow> bool" where
  "wellformed s = (selmon s \<in> set (mons s) \<and> list_all (mon_wf s) (mons s))"

definition unstacked :: "State \<Rightarrow> cid \<Rightarrow> bool" where
  "unstacked s c =
     list_all (\<lambda>m. list_all (\<lambda>i. c \<notin> set (stack_of s m i)) [0..<NUMVIEWS]) (mons s)"

text \<open>
  Two relations between states: \<open>same_focus\<close> holds when the stacks, the selected
  clients, the selected views and the places of the clients are the same;
  \<open>refocused\<close> holds when they are the same but for the selected client of the
  selected view of \<^verbatim>\<open>selmon\<close>, which has become the head of its stack.
\<close>

definition same_focus :: "State \<Rightarrow> State \<Rightarrow> bool" where
  "same_focus s s' =
     (mons s' = mons s \<and> selmon s' = selmon s
      \<and> (\<forall>m. m_selview (monitor_at s' m) = m_selview (monitor_at s m)
             \<and> length (m_views (monitor_at s' m)) = length (m_views (monitor_at s m)))
      \<and> (\<forall>m i. stack_of s' m i = stack_of s m i \<and> sel_of s' m i = sel_of s m i)
      \<and> (\<forall>c. c_mon (client_at s' c) = c_mon (client_at s c)
             \<and> c_view (client_at s' c) = c_view (client_at s c)))"

definition refocused :: "State \<Rightarrow> State \<Rightarrow> bool" where
  "refocused s s' =
     (mons s' = mons s \<and> selmon s' = selmon s
      \<and> (\<forall>m. m_selview (monitor_at s' m) = m_selview (monitor_at s m)
             \<and> length (m_views (monitor_at s' m)) = length (m_views (monitor_at s m)))
      \<and> (\<forall>c. c_mon (client_at s' c) = c_mon (client_at s c)
             \<and> c_view (client_at s' c) = c_view (client_at s c))
      \<and> (\<forall>m i. stack_of s' m i = stack_of s m i)
      \<and> (\<forall>m i. sel_of s' m i
             = (if m = selmon s \<and> i = m_selview (monitor_at s (selmon s))
                then head (stack_of s m i) else sel_of s m i)))"

section \<open>Concrete scenarios\<close>

text \<open>
  One monitor of 1920 by 1080 pixels, a bar of 14 pixels on top, the master fraction
  \<^verbatim>\<open>0.55\<close>, a border of one pixel, the tile layout in every view, no client yet.
\<close>

definition rect :: "Client \<Rightarrow> int \<times> int \<times> int \<times> int" where
  "rect c = (c_x c, c_y c, c_w c, c_h c)"

definition demo_tile :: Layout where
  "demo_tile = \<lparr>lt_symbol = ''[]='', lt_arrange = Some Tile\<rparr>"

definition demo_floating :: Layout where
  "demo_floating = \<lparr>lt_symbol = ''><>'', lt_arrange = None\<rparr>"

definition demo_cfg :: Config where
  "demo_cfg = \<lparr>resizehints = False, borderpx = 1, mfact = float_of_double (dlit 55 100),
                showbar = True, topbar = True, layouts = [demo_tile, demo_floating],
                VERSION = ''5.8.2''\<rparr>"

definition demo_view :: View where
  "demo_view = \<lparr>v_mfact = mfact demo_cfg, v_clients = [], v_sel = None, v_stack = [],
                 v_lt = demo_tile\<rparr>"

definition demo_monitor :: Monitor where
  "demo_monitor = \<lparr>m_ltsymbol = ''[]='', m_num = 0, m_by = 0, m_mx = 0, m_my = 0,
                    m_mw = 1920, m_mh = 1080, m_wx = 0, m_wy = 14, m_ww = 1920, m_wh = 1066,
                    m_showbar = True, m_topbar = True, m_barwin = 100, m_selview = 0,
                    m_views = replicate 9 demo_view\<rparr>"

definition demo_init :: State where
  "demo_init = \<lparr>sw = 1920, sh = 1080, bh = 14, stext = [], root = 1, mons = [0], selmon = 0,
                 monitor_at = (\<lambda>_. demo_monitor), client_at = (\<lambda>_. cz)\<rparr>"

text \<open>An X server whose windows have a name and no hints, and a window of 800 by 600.\<close>

definition demo_X :: XServer where
  "demo_X = \<lparr>x_name = (\<lambda>_. ''xterm''), x_transient_for = (\<lambda>_. None),
              x_normal_hints = (\<lambda>_. None), x_urgency_hint = (\<lambda>_. None), x_root_name = None\<rparr>"

definition demo_wa :: XWindowAttributes where
  "demo_wa = \<lparr>wa_x = 0, wa_y = 0, wa_width = 800, wa_height = 600, wa_border_width = 0\<rparr>"

text \<open>
  The window 11 is mapped first and becomes the client at address 1 (W1); the window
  12 is mapped second and becomes the client at address 2 (W2).
\<close>

definition one_window :: "State option" where
  "one_window = manage demo_cfg demo_X demo_init 1 11 demo_wa"

definition two_windows :: "State option" where
  "two_windows = do { s \<leftarrow> one_window; manage demo_cfg demo_X s 2 12 demo_wa }"

text \<open>Then the selected client, W2, is moved to the second view.\<close>

definition two_views :: "State option" where
  "two_views = do { s \<leftarrow> two_windows; tag demo_cfg s 1 }"

text \<open>A window as large as the screen.\<close>

definition screen_wa :: XWindowAttributes where
  "screen_wa = \<lparr>wa_x = 0, wa_y = 0, wa_width = 1920, wa_height = 1080, wa_border_width = 0\<rparr>"

text \<open>
  An X server whose windows ask for a fixed size of 200 by 100, and the event that
  tells that the size hints of the window 11 have changed.
\<close>

definition fixed_hints :: XSizeHints where
  "fixed_hints = \<lparr>PBaseSize = False, PMinSize = True, PResizeInc = False, PMaxSize = True,
                   PAspect = False, base_width = 0, base_height = 0, min_width = 200,
                   min_height = 100, width_inc = 0, height_inc = 0, max_width = 200,
                   max_height = 100, min_aspect_x = 0, min_aspect_y = 0, max_aspect_x = 0,
                   max_aspect_y = 0\<rparr>"

definition fixed_X :: XServer where
  "fixed_X = demo_X\<lparr>x_normal_hints := (\<lambda>_. Some fixed_hints)\<rparr>"

definition hints_event :: XPropertyEvent where
  "hints_event = \<lparr>pe_window = 11, pe_atom = XA_WM_NORMAL_HINTS, pe_deleted = False\<rparr>"

text \<open>
  The configuration with \<^verbatim>\<open>resizehints\<close> set, an X server whose windows ask for
  sizes in steps of 100 pixels, and the client messages that set and unset the
  fullscreen state of the window 11.  In \<open>before_fullscreen\<close> the window 11 is
  mapped while it has no hints and announces the steps afterwards.
\<close>

definition hints_cfg :: Config where
  "hints_cfg = demo_cfg\<lparr>resizehints := True\<rparr>"

definition inc_hints :: XSizeHints where
  "inc_hints = \<lparr>PBaseSize = False, PMinSize = False, PResizeInc = True, PMaxSize = False,
                 PAspect = False, base_width = 0, base_height = 0, min_width = 0,
                 min_height = 0, width_inc = 100, height_inc = 100, max_width = 0,
                 max_height = 0, min_aspect_x = 0, min_aspect_y = 0, max_aspect_x = 0,
                 max_aspect_y = 0\<rparr>"

definition inc_X :: XServer where
  "inc_X = demo_X\<lparr>x_normal_hints := (\<lambda>_. Some inc_hints)\<rparr>"

definition fullscreen_event :: "int \<Rightarrow> XClientMessageEvent" where
  "fullscreen_event d = \<lparr>cme_window = 11, cme_message_type = NetWMState, cme_data0 = d,
                          cme_data1 = NetWMFullscreen\<rparr>"

definition before_fullscreen :: "State option" where
  "before_fullscreen =
     do { s \<leftarrow> manage hints_cfg demo_X demo_init 1 11 demo_wa;
          propertynotify hints_cfg inc_X s hints_event 0 }"

text \<open>The two windows under the floating layout, which has no arrange function.\<close>

definition floating_layout :: "State option" where
  "floating_layout = do { s \<leftarrow> two_windows; setlayout demo_cfg s demo_floating }"

text \<open>
  A floating client whose window asks for an aspect ratio between 4:3 and 16:9:
  \<^verbatim>\<open>updatesizehints\<close> sets \<^verbatim>\<open>mina\<close> to 3/4 and \<^verbatim>\<open>maxa\<close> to 16/9.
\<close>

definition aspect_hints :: XSizeHints where
  "aspect_hints = \<lparr>PBaseSize = False, PMinSize = False, PResizeInc = False, PMaxSize = False,
                    PAspect = True, base_width = 0, base_height = 0, min_width = 0,
                    min_height = 0, width_inc = 0, height_inc = 0, max_width = 0,
                    max_height = 0, min_aspect_x = 4, min_aspect_y = 3, max_aspect_x = 16,
                    max_aspect_y = 9\<rparr>"

definition aspect_client :: Client where
  "aspect_client =
     updatesizehints (demo_X\<lparr>x_normal_hints := (\<lambda>_. Some aspect_hints)\<rparr>) (cz\<lparr>c_isfloating := True\<rparr>)"

text \<open>
  Two monitors side by side.  W1 is mapped on the first; then the second monitor is
  focused and W2 is mapped on it.
\<close>

definition second_monitor :: Monitor where
  "second_monitor = demo_monitor\<lparr>m_num := 1, m_mx := 1920, m_wx := 1920, m_barwin := 101\<rparr>"

definition two_monitors_init :: State where
  "two_monitors_init =
     demo_init\<lparr>sw := 3840, mons := [0, 1],
               monitor_at := (\<lambda>m. if m = 1 then second_monitor else demo_monitor)\<rparr>"

definition two_monitors :: "State option" where
  "two_monitors =
     do { s \<leftarrow> manage demo_cfg demo_X two_monitors_init 1 11 demo_wa;
          s \<leftarrow> focusmon s 1;
          manage demo_cfg demo_X s 2 12 demo_wa }"

section \<open>Resizing a client\<close>

lemma resize_globals [simp]:
  "monitor_at (resize cfg s c x y w h i) = monitor_at s"
  "bh (resize cfg s c x y w h i) = bh s"
  "sw (resize cfg s c x y w h i) = sw s"
  "sh (resize cfg s c x y w h i) = sh s"
  "mons (resize cfg s c x y w h i) = mons s"
  "selmon (resize cfg s c x y w h i) = selmon s"
  "stext (resize cfg s c x y w h i) = stext s"
  "root (resize cfg s c x y w h i) = root s"
  by (simp_all add: resize_def resizeclient_def setclient_def Let_def split: prod.splits)

lemma resize_other [simp]:
  "d \<noteq> c \<Longrightarrow> client_at (resize cfg s c x y w h i) d = client_at s d"
  by (simp add: resize_def resizeclient_def setclient_def Let_def split: prod.splits)

lemma resize_fields [simp]:
  "c_bw (client_at (resize cfg s c x y w h i) d) = c_bw (client_at s d)"
  "c_isfloating (client_at (resize cfg s c x y w h i) d) = c_isfloating (client_at s d)"
  "c_isfixed (client_at (resize cfg s c x y w h i) d) = c_isfixed (client_at s d)"
  "c_mon (client_at (resize cfg s c x y w h i) d) = c_mon (client_at s d)"
  "c_view (client_at (resize cfg s c x y w h i) d) = c_view (client_at s d)"
  "c_win (client_at (resize cfg s c x y w h i) d) = c_win (client_at s d)"
  "c_oldbw (client_at (resize cfg s c x y w h i) d) = c_oldbw (client_at s d)"
  "c_oldstate (client_at (resize cfg s c x y w h i) d) = c_oldstate (client_at s d)"
  "c_isurgent (client_at (resize cfg s c x y w h i) d) = c_isurgent (client_at s d)"
  by (simp_all add: resize_def resizeclient_def setclient_def Let_def split: prod.splits)

lemma resize_rect:
  "rect (client_at (resize cfg s c x y w h i) c) = sizehints cfg s c x y w h i"
  by (auto simp: resize_def applysizehints_def resizeclient_def setclient_def Let_def rect_def
      split: prod.splits)

text \<open>
  Without the size hints a rectangle passes \<^verbatim>\<open>applysizehints\<close> unchanged when it is
  at least one pixel and at least the bar height in both directions and is not off the
  screen of the client's monitor.
\<close>

lemma sizehints_plain:
  assumes "\<not> resizehints cfg" "\<not> c_isfloating (client_at s c)"
    and "1 \<le> w" "bh s \<le> w" "1 \<le> h" "bh s \<le> h"
    and "x \<le> m_mx (monitor_at s (c_mon (client_at s c))) + m_mw (monitor_at s (c_mon (client_at s c)))"
    and "m_mx (monitor_at s (c_mon (client_at s c))) \<le> x + w + 2 * c_bw (client_at s c)"
    and "y \<le> m_my (monitor_at s (c_mon (client_at s c))) + m_mh (monitor_at s (c_mon (client_at s c)))"
    and "m_my (monitor_at s (c_mon (client_at s c))) \<le> y + h + 2 * c_bw (client_at s c)"
  shows "sizehints cfg s c x y w h False = (x, y, w, h)"
  using assms by (simp add: sizehints_def Let_def)

section \<open>Arrangements\<close>

lemma frame_refl [simp]: "frame s s"
  by (simp add: frame_def)

lemma frame_trans: "frame s t \<Longrightarrow> frame t u \<Longrightarrow> frame s u"
  by (simp add: frame_def)

lemma arranges_trans: "arranges cfg s t \<Longrightarrow> arranges cfg t u \<Longrightarrow> arranges cfg s u"
  by (induction rule: arranges.induct) (auto intro: arranges.intros)

lemma arranges_tiled1:
  "\<not> c_isfloating (client_at s d) \<Longrightarrow> arranges cfg s (resize cfg s d x y w h False)"
  by (rule arranges_tiled [OF _ arranges_refl])

lemma arranges_ltsymbol1:
  "arranges cfg s (s\<lparr>monitor_at := (monitor_at s)(m := (monitor_at s m)\<lparr>m_ltsymbol := l\<rparr>)\<rparr>)"
  by (rule arranges_ltsymbol [OF arranges_refl])

lemma nexttiled_head:
  "nexttiled s cs = [] \<or> \<not> c_isfloating (client_at s (hd (nexttiled s cs)))"
  by (induction cs) auto

lemma nexttiled_Cons: "nexttiled s cs = c # r \<Longrightarrow> \<not> c_isfloating (client_at s c)"
  using nexttiled_head [of s cs] by auto

lemma nexttiled_resize: "nexttiled (resize cfg s c x y w h i) cs = nexttiled s cs"
  by (induction cs) auto

lemma arranges_tile_loop:
  "cs = [] \<or> \<not> c_isfloating (client_at s (hd cs))
   \<Longrightarrow> arranges cfg s (tile_loop cfg m n x w h s y rh i cs)"
proof (induction cfg m n x w h s y rh i cs rule: tile_loop.induct)
  case 1 show ?case by (simp add: arranges_refl)
next
  case (2 cfg m n x w h s y rh i c cs)
  from "2.prems" have nf: "\<not> c_isfloating (client_at s c)" by simp
  show ?case
    apply (subst tile_loop.simps)
    apply (simp only: Let_def)
    apply (rule arranges_tiled [OF nf])
    apply (rule "2.IH" [simplified Let_def, OF refl refl refl refl])
    apply (rule nexttiled_head)
    done
qed

lemma arranges_mirrortile_loop:
  "cs = [] \<or> \<not> c_isfloating (client_at s (hd cs))
   \<Longrightarrow> arranges cfg s (mirrortile_loop cfg m n y w h s x rw i cs)"
proof (induction cfg m n y w h s x rw i cs rule: mirrortile_loop.induct)
  case 1 show ?case by (simp add: arranges_refl)
next
  case (2 cfg m n y w h s x rw i c cs)
  from "2.prems" have nf: "\<not> c_isfloating (client_at s c)" by simp
  show ?case
    apply (subst mirrortile_loop.simps)
    apply (simp only: Let_def)
    apply (rule arranges_tiled [OF nf])
    apply (rule "2.IH" [simplified Let_def, OF refl refl refl refl])
    apply (rule nexttiled_head)
    done
qed

lemma arranges_monocle_loop:
  "cs = [] \<or> \<not> c_isfloating (client_at s (hd cs))
   \<Longrightarrow> arranges cfg s (monocle_loop cfg m s cs)"
proof (induction cfg m s cs rule: monocle_loop.induct)
  case 1 show ?case by (simp add: arranges_refl)
next
  case (2 cfg m s c cs)
  from "2.prems" have nf: "\<not> c_isfloating (client_at s c)" by simp
  show ?case
    apply (subst monocle_loop.simps)
    apply (simp only: Let_def)
    apply (rule arranges_tiled [OF nf])
    apply (rule "2.IH" [simplified Let_def, OF refl refl refl])
    apply (rule nexttiled_head)
    done
qed

lemma tile_cases:
  assumes "tile cfg s m = Some s'"
  shows "s' = s
       \<or> (\<exists>c a b d e. \<not> c_isfloating (client_at s c) \<and> s' = resize cfg s c a b d e False)
       \<or> (\<exists>c a b d e n x w h y rh cs. \<not> c_isfloating (client_at s c)
             \<and> s' = tile_loop cfg m n x w h (resize cfg s c a b d e False) y rh 0
                      (nexttiled (resize cfg s c a b d e False) cs))"
proof -
  from assms obtain v where v: "SELVIEW s m = Some v"
    by (simp add: tile_def split: bind_splits)
  show ?thesis
  proof (cases "count_tiled s (nexttiled s (v_clients v)) 0 = 0")
    case True
    with assms v show ?thesis by (simp add: tile_def)
  next
    case n0: False
    show ?thesis
    proof (cases "nexttiled s (v_clients v)")
      case Nil
      with assms v n0 show ?thesis by (simp add: tile_def)
    next
      case (Cons c cs)
      then have nf: "\<not> c_isfloating (client_at s c)" by (rule nexttiled_Cons)
      show ?thesis
      proof (cases "count_tiled s (nexttiled s (v_clients v)) 0 - 1 = 0")
        case True
        with assms v n0 Cons nf show ?thesis
          by (simp add: tile_def Let_def) blast
      next
        case False
        with assms v n0 Cons nf show ?thesis
          apply (simp add: tile_def Let_def split_def del: tile_loop.simps)
          apply (rule disjI2)
          apply (rule disjI2)
          apply blast
          done
      qed
    qed
  qed
qed

lemma arranges_tile: "tile cfg s m = Some s' \<Longrightarrow> arranges cfg s s'"
  by (drule tile_cases)
     (auto intro!: arranges_refl arranges_tiled1 arranges_tiled [OF _ arranges_tile_loop] nexttiled_head)

lemma mirrortile_cases:
  assumes "mirrortile cfg s m = Some s'"
  shows "s' = s
       \<or> (\<exists>c a b d e. \<not> c_isfloating (client_at s c) \<and> s' = resize cfg s c a b d e False)
       \<or> (\<exists>c a b d e n x w h y rh cs. \<not> c_isfloating (client_at s c)
             \<and> s' = mirrortile_loop cfg m n x w h (resize cfg s c a b d e False) y rh 0
                      (nexttiled (resize cfg s c a b d e False) cs))"
proof -
  from assms obtain v where v: "SELVIEW s m = Some v"
    by (simp add: mirrortile_def split: bind_splits)
  show ?thesis
  proof (cases "count_tiled s (nexttiled s (v_clients v)) 0 = 0")
    case True
    with assms v show ?thesis by (simp add: mirrortile_def)
  next
    case n0: False
    show ?thesis
    proof (cases "nexttiled s (v_clients v)")
      case Nil
      with assms v n0 show ?thesis by (simp add: mirrortile_def)
    next
      case (Cons c cs)
      then have nf: "\<not> c_isfloating (client_at s c)" by (rule nexttiled_Cons)
      show ?thesis
      proof (cases "count_tiled s (nexttiled s (v_clients v)) 0 - 1 = 0")
        case True
        with assms v n0 Cons nf show ?thesis
          by (simp add: mirrortile_def Let_def) blast
      next
        case False
        with assms v n0 Cons nf show ?thesis
          apply (simp add: mirrortile_def Let_def split_def del: mirrortile_loop.simps)
          apply (rule disjI2)
          apply (rule disjI2)
          apply blast
          done
      qed
    qed
  qed
qed

lemma arranges_mirrortile: "mirrortile cfg s m = Some s' \<Longrightarrow> arranges cfg s s'"
  by (drule mirrortile_cases)
     (auto intro!: arranges_refl arranges_tiled1 arranges_tiled [OF _ arranges_mirrortile_loop] nexttiled_head)

lemma arranges_monocle:
  assumes "monocle cfg s m = Some s'"
  shows "arranges cfg s s'"
proof -
  from assms obtain v where v: "SELVIEW s m = Some v"
    by (simp add: monocle_def split: bind_splits)
  define t where "t = (if 0 < length (v_clients v)
                then s\<lparr>monitor_at := (monitor_at s)
                        (m := (monitor_at s m)\<lparr>m_ltsymbol := take 15 (''['' @ string_of_nat (length (v_clients v)) @ '']'')\<rparr>)\<rparr>
                else s)"
  have st: "arranges cfg s t" by (simp add: t_def arranges_refl arranges_ltsymbol1)
  from assms v have "s' = monocle_loop cfg m t (nexttiled t (v_clients v))"
    by (simp add: monocle_def Let_def t_def)
  then have "arranges cfg t s'" by (simp add: arranges_monocle_loop nexttiled_head)
  with st show ?thesis by (rule arranges_trans)
qed

lemma arranges_arrangemon:
  assumes a: "arrangemon cfg s m = Some s'"
  shows "arranges cfg s s'"
proof -
  from a obtain v where v: "SELVIEW s m = Some v"
    by (auto simp: arrangemon_def split: bind_splits)
  define t where "t = s\<lparr>monitor_at := (monitor_at s)
                  (m := (monitor_at s m)\<lparr>m_ltsymbol := take 16 (lt_symbol (v_lt v))\<rparr>)\<rparr>"
  have st: "arranges cfg s t" by (simp add: t_def arranges_ltsymbol1)
  from a v have "t = s' \<or> tile cfg t m = Some s' \<or> mirrortile cfg t m = Some s' \<or> monocle cfg t m = Some s'"
    by (simp add: arrangemon_def Let_def t_def split: option.splits arranger.splits)
  then have "arranges cfg t s'"
    by (elim disjE) (simp_all add: arranges_refl arranges_tile arranges_mirrortile arranges_monocle)
  with st show ?thesis by (rule arranges_trans)
qed

lemma showhide_step:
  assumes "showhide cfg s (c # cs) = Some s'"
  shows "\<exists>t. arranges cfg s t \<and> showhide cfg t cs = Some s'"
proof -
  from assms have "\<exists>v. getview (monitor_at s (c_mon (client_at s c))) (c_view (client_at s c)) = Some v"
    by (simp add: Let_def bind_eq_Some_conv) (erule exE, erule conjE, erule exI)
  then obtain v where v: "getview (monitor_at s (c_mon (client_at s c))) (c_view (client_at s c)) = Some v"
    by blast
  define t where "t = (if \<not> (\<not> c_isfloating (client_at s c) \<and> lt_arrange (v_lt v) \<noteq> None)
                then resize cfg s c (c_x (client_at s c)) (c_y (client_at s c)) (c_w (client_at s c)) (c_h (client_at s c)) False else s)"
  have "arranges cfg s t"
    unfolding t_def by (auto intro: arranges_refl arranges_own)
  moreover from assms v have "showhide cfg t cs = Some s'"
    by (simp add: t_def Let_def)
  ultimately show ?thesis by blast
qed

lemma arranges_showhide: "showhide cfg s cs = Some s' \<Longrightarrow> arranges cfg s s'"
proof (induction cs arbitrary: s)
  case Nil then show ?case by (simp add: arranges_refl)
next
  case (Cons c cs)
  from showhide_step [OF Cons.prems] obtain t where "arranges cfg s t" "showhide cfg t cs = Some s'"
    by blast
  with Cons.IH show ?case by (blast intro: arranges_trans)
qed

lemma arranges_showhide_all: "showhide_all cfg s ms = Some s' \<Longrightarrow> arranges cfg s s'"
proof (induction ms arbitrary: s)
  case Nil then show ?case by (simp add: arranges_refl)
next
  case (Cons m ms)
  from Cons.prems have "\<exists>(v::View) t. showhide cfg s (v_stack v) = Some t \<and> showhide_all cfg t ms = Some s'"
    by (simp add: bind_eq_Some_conv) blast
  then obtain v :: View and t where "showhide cfg s (v_stack v) = Some t" "showhide_all cfg t ms = Some s'"
    by blast
  with Cons.IH arranges_showhide show ?case by (blast intro: arranges_trans)
qed

lemma arranges_arrangemon_all: "arrangemon_all cfg s ms = Some s' \<Longrightarrow> arranges cfg s s'"
proof (induction ms arbitrary: s)
  case Nil then show ?case by (simp add: arranges_refl)
next
  case (Cons m ms)
  from Cons.prems have "\<exists>t. arrangemon cfg s m = Some t \<and> arrangemon_all cfg t ms = Some s'"
    by (simp add: bind_eq_Some_conv)
  then obtain t where "arrangemon cfg s m = Some t" "arrangemon_all cfg t ms = Some s'"
    by blast
  with Cons.IH arranges_arrangemon show ?case by (blast intro: arranges_trans)
qed

text \<open>What an arrangement leaves as it is.\<close>

lemma arranges_same:
  assumes "arranges cfg s s'"
  shows "sw s' = sw s \<and> sh s' = sh s \<and> bh s' = bh s \<and> stext s' = stext s \<and> root s' = root s
      \<and> mons s' = mons s \<and> selmon s' = selmon s
      \<and> (\<forall>c. geometry_cleared (client_at s' c) = geometry_cleared (client_at s c)
             \<and> c_isurgent (client_at s' c) = c_isurgent (client_at s c))
      \<and> (\<forall>m. (monitor_at s' m)\<lparr>m_ltsymbol := []\<rparr> = (monitor_at s m)\<lparr>m_ltsymbol := []\<rparr>)"
  using assms
proof (induction rule: arranges.induct)
  case (arranges_refl s)
  show ?case by simp
next
  case (arranges_tiled s d x y w h s')
  have "geometry_cleared (client_at (resize cfg s d x y w h False) c) = geometry_cleared (client_at s c)" for c
    by (simp add: geometry_cleared_def resize_def resizeclient_def setclient_def Let_def split: prod.splits)
  with arranges_tiled.IH show ?case by simp
next
  case (arranges_own s d s')
  have "geometry_cleared (client_at (resize cfg s d x y w h False) c) = geometry_cleared (client_at s c)" for c x y w h
    by (simp add: geometry_cleared_def resize_def resizeclient_def setclient_def Let_def split: prod.splits)
  with arranges_own.IH show ?case by simp
next
  case (arranges_ltsymbol s m l s')
  then show ?case by simp
qed

lemma frame_setview:
  assumes "getview (monitor_at s m) i = Some v" "focus_cleared v' = focus_cleared v"
  shows "frame s (setview s m i v')"
proof -
  from assms(1) have i: "i < length (m_views (monitor_at s m))" and v: "v = m_views (monitor_at s m) ! i"
    by (auto simp: getview_def split: if_splits)
  have "map focus_cleared ((m_views (monitor_at s m))[i := v']) = map focus_cleared (m_views (monitor_at s m))"
    using i v assms(2) by (simp add: map_update list_update_same_conv)
  then show ?thesis
    by (simp add: frame_def setview_def views_cleared_def)
qed

lemma frame_attachstack: "attachstack s c = Some s' \<Longrightarrow> frame s s'"
  by (auto simp: attachstack_def Let_def focus_cleared_def split: bind_splits intro!: frame_setview)

lemma frame_detachstack: "detachstack s c = Some s' \<Longrightarrow> frame s s'"
  by (auto simp: detachstack_def Let_def focus_cleared_def split: bind_splits if_splits intro!: frame_setview)

lemma frame_clearurgent [simp]: "frame s (clearurgent s c)"
  by (simp add: frame_def clearurgent_def setclient_def geometry_cleared_def)

lemma frame_selmon [simp]: "frame s (s\<lparr>selmon := m\<rparr>)"
  by (simp add: frame_def)

lemma SELVIEW_selmon [simp]: "SELVIEW (s\<lparr>selmon := m\<rparr>) = SELVIEW s"
  by (simp add: SELVIEW_def fun_eq_iff)

lemma frame_focus:
  assumes "focus s c0 = Some s'"
  shows "frame s s'"
proof -
  from assms obtain v c t v' where
    t: "(case c of
               Some ci \<Rightarrow>
                 do {
                   let s = (if c_mon (client_at s ci) \<noteq> selmon s
                            then s\<lparr>selmon := c_mon (client_at s ci)\<rparr> else s);
                   let s = (if c_isurgent (client_at s ci) then clearurgent s ci else s);
                   s \<leftarrow> detachstack s ci;
                   attachstack s ci
                 }
             | None \<Rightarrow> Some s) = Some t"
    and v': "SELVIEW t (selmon t) = Some v'"
    and s': "s' = setview t (selmon t) (m_selview (monitor_at t (selmon t))) (v'\<lparr>v_sel := c\<rparr>)"
    by (auto simp: focus_def Let_def split: bind_splits)
  have st: "frame s t"
  proof (cases c)
    case None
    with t show ?thesis by simp
  next
    case (Some ci)
    have pre: "frame (clearurgent a ci) x \<Longrightarrow> frame a x" "frame (a\<lparr>selmon := mm\<rparr>) x \<Longrightarrow> frame a x" for a x mm
      using frame_clearurgent frame_selmon frame_trans by blast+
    from t Some obtain s2 s3 where "frame s2 s3" "frame s3 t" "frame s2 s3 \<Longrightarrow> frame s s3"
      by (auto simp: Let_def split: if_splits bind_splits dest!: frame_detachstack frame_attachstack dest: pre)
    then show ?thesis by (blast intro: frame_trans)
  qed
  have "frame t s'"
    unfolding s' using v' by (intro frame_setview) (auto simp: SELVIEW_def focus_cleared_def)
  with st show ?thesis by (rule frame_trans)
qed


lemma monitor_eq_views_cleared:
  "a\<lparr>m_ltsymbol := []\<rparr> = b\<lparr>m_ltsymbol := []\<rparr> \<Longrightarrow> views_cleared a = views_cleared b"
  by (cases a, cases b) (simp add: views_cleared_def)

lemma arranges_frame: "arranges cfg s s' \<Longrightarrow> frame s s'"
proof -
  assume "arranges cfg s s'"
  note a = arranges_same [OF this]
  from a have "views_cleared (monitor_at s' m) = views_cleared (monitor_at s m)" for m
    by (intro monitor_eq_views_cleared) simp
  with a show ?thesis
    by (simp add: frame_def)
qed

lemma arrange_cases:
  assumes "arrange cfg s m0 = Some s'"
  shows "\<exists>t u. arranges cfg s t \<and> focus t None = Some u \<and> arranges cfg u s'"
proof -
  from assms obtain t u where
    t: "(case m0 of
               Some m \<Rightarrow> do { v \<leftarrow> SELVIEW s m; showhide cfg s (v_stack v) }
             | None \<Rightarrow> showhide_all cfg s (mons s)) = Some t"
    and u: "focus t None = Some u"
    and s': "(case m0 of
          Some m \<Rightarrow> arrangemon cfg u m
        | None \<Rightarrow> arrangemon_all cfg u (mons u)) = Some s'"
    by (auto simp: arrange_def split: bind_splits)
  from t have "arranges cfg s t"
    by (cases m0) (auto split: bind_splits dest: arranges_showhide arranges_showhide_all)
  moreover from s' have "arranges cfg u s'"
    by (cases m0) (auto dest: arranges_arrangemon arranges_arrangemon_all)
  ultimately show ?thesis using u by blast
qed

lemma frame_arrange: "arrange cfg s m0 = Some s' \<Longrightarrow> frame s s'"
  by (drule arrange_cases) (blast intro: frame_trans arranges_frame frame_focus)

lemma frame_client:
  assumes "frame s s'"
  shows "c_bw (client_at s' c) = c_bw (client_at s c)"
    "c_isfloating (client_at s' c) = c_isfloating (client_at s c)"
    "c_isfixed (client_at s' c) = c_isfixed (client_at s c)"
    "c_mon (client_at s' c) = c_mon (client_at s c)"
    "c_view (client_at s' c) = c_view (client_at s c)"
    "c_win (client_at s' c) = c_win (client_at s c)"
    "c_oldbw (client_at s' c) = c_oldbw (client_at s c)"
    "c_oldstate (client_at s' c) = c_oldstate (client_at s c)"
proof -
  from assms have e: "geometry_cleared (client_at s' c) = geometry_cleared (client_at s c)"
    by (simp add: frame_def)
  show "c_bw (client_at s' c) = c_bw (client_at s c)"
    using arg_cong [OF e, of c_bw] by (simp add: geometry_cleared_def)
  show "c_isfloating (client_at s' c) = c_isfloating (client_at s c)"
    using arg_cong [OF e, of c_isfloating] by (simp add: geometry_cleared_def)
  show "c_isfixed (client_at s' c) = c_isfixed (client_at s c)"
    using arg_cong [OF e, of c_isfixed] by (simp add: geometry_cleared_def)
  show "c_mon (client_at s' c) = c_mon (client_at s c)"
    using arg_cong [OF e, of c_mon] by (simp add: geometry_cleared_def)
  show "c_view (client_at s' c) = c_view (client_at s c)"
    using arg_cong [OF e, of c_view] by (simp add: geometry_cleared_def)
  show "c_win (client_at s' c) = c_win (client_at s c)"
    using arg_cong [OF e, of c_win] by (simp add: geometry_cleared_def)
  show "c_oldbw (client_at s' c) = c_oldbw (client_at s c)"
    using arg_cong [OF e, of c_oldbw] by (simp add: geometry_cleared_def)
  show "c_oldstate (client_at s' c) = c_oldstate (client_at s c)"
    using arg_cong [OF e, of c_oldstate] by (simp add: geometry_cleared_def)
qed

lemma frame_monitor:
  assumes "frame s s'"
  shows "m_mx (monitor_at s' m) = m_mx (monitor_at s m)"
    "m_my (monitor_at s' m) = m_my (monitor_at s m)"
    "m_mw (monitor_at s' m) = m_mw (monitor_at s m)"
    "m_mh (monitor_at s' m) = m_mh (monitor_at s m)"
    "m_selview (monitor_at s' m) = m_selview (monitor_at s m)"
    "map v_mfact (m_views (monitor_at s' m)) = map v_mfact (m_views (monitor_at s m))"
    "map v_clients (m_views (monitor_at s' m)) = map v_clients (m_views (monitor_at s m))"
    "map v_lt (m_views (monitor_at s' m)) = map v_lt (m_views (monitor_at s m))"
proof -
  from assms have e: "views_cleared (monitor_at s' m) = views_cleared (monitor_at s m)"
    by (simp add: frame_def)
  show "m_mx (monitor_at s' m) = m_mx (monitor_at s m)"
    using arg_cong [OF e, of m_mx] by (simp add: views_cleared_def)
  show "m_my (monitor_at s' m) = m_my (monitor_at s m)"
    using arg_cong [OF e, of m_my] by (simp add: views_cleared_def)
  show "m_mw (monitor_at s' m) = m_mw (monitor_at s m)"
    using arg_cong [OF e, of m_mw] by (simp add: views_cleared_def)
  show "m_mh (monitor_at s' m) = m_mh (monitor_at s m)"
    using arg_cong [OF e, of m_mh] by (simp add: views_cleared_def)
  show "m_selview (monitor_at s' m) = m_selview (monitor_at s m)"
    using arg_cong [OF e, of m_selview] by (simp add: views_cleared_def)
  have v: "map focus_cleared (m_views (monitor_at s' m)) = map focus_cleared (m_views (monitor_at s m))"
    using arg_cong [OF e, of m_views] by (simp add: views_cleared_def)
  show "map v_mfact (m_views (monitor_at s' m)) = map v_mfact (m_views (monitor_at s m))"
    using arg_cong [OF v, of "map v_mfact"] by (simp add: focus_cleared_def comp_def)
  show "map v_clients (m_views (monitor_at s' m)) = map v_clients (m_views (monitor_at s m))"
    using arg_cong [OF v, of "map v_clients"] by (simp add: focus_cleared_def comp_def)
  show "map v_lt (m_views (monitor_at s' m)) = map v_lt (m_views (monitor_at s m))"
    using arg_cong [OF v, of "map v_lt"] by (simp add: focus_cleared_def comp_def)
qed

lemma setview_simps [simp]:
  "client_at (setview s m i v) = client_at s"
  "bh (setview s m i v) = bh s"
  "sw (setview s m i v) = sw s"
  "sh (setview s m i v) = sh s"
  "mons (setview s m i v) = mons s"
  "selmon (setview s m i v) = selmon s"
  "root (setview s m i v) = root s"
  "stext (setview s m i v) = stext s"
  "m_mx (monitor_at (setview s m i v) m') = m_mx (monitor_at s m')"
  "m_my (monitor_at (setview s m i v) m') = m_my (monitor_at s m')"
  "m_mw (monitor_at (setview s m i v) m') = m_mw (monitor_at s m')"
  "m_mh (monitor_at (setview s m i v) m') = m_mh (monitor_at s m')"
  "m_wx (monitor_at (setview s m i v) m') = m_wx (monitor_at s m')"
  "m_wy (monitor_at (setview s m i v) m') = m_wy (monitor_at s m')"
  "m_ww (monitor_at (setview s m i v) m') = m_ww (monitor_at s m')"
  "m_wh (monitor_at (setview s m i v) m') = m_wh (monitor_at s m')"
  "m_selview (monitor_at (setview s m i v) m') = m_selview (monitor_at s m')"
  by (simp_all add: setview_def)

lemma setclient_simps [simp]:
  "client_at (setclient s c cl) c = cl"
  "d \<noteq> c \<Longrightarrow> client_at (setclient s c cl) d = client_at s d"
  "monitor_at (setclient s c cl) = monitor_at s"
  "bh (setclient s c cl) = bh s"
  "sw (setclient s c cl) = sw s"
  "sh (setclient s c cl) = sh s"
  "mons (setclient s c cl) = mons s"
  "selmon (setclient s c cl) = selmon s"
  "root (setclient s c cl) = root s"
  "stext (setclient s c cl) = stext s"
  by (simp_all add: setclient_def)

lemma attach_same:
  assumes "attach s c = Some s'"
  shows "client_at s' = client_at s" "bh s' = bh s"
    "m_mx (monitor_at s' m) = m_mx (monitor_at s m)" "m_my (monitor_at s' m) = m_my (monitor_at s m)"
    "m_mw (monitor_at s' m) = m_mw (monitor_at s m)" "m_mh (monitor_at s' m) = m_mh (monitor_at s m)"
  using assms by (auto simp: attach_def Let_def split: bind_splits)

lemma attachstack_same:
  assumes "attachstack s c = Some s'"
  shows "client_at s' = client_at s" "bh s' = bh s"
    "m_mx (monitor_at s' m) = m_mx (monitor_at s m)" "m_my (monitor_at s' m) = m_my (monitor_at s m)"
    "m_mw (monitor_at s' m) = m_mw (monitor_at s m)" "m_mh (monitor_at s' m) = m_mh (monitor_at s m)"
  using assms by (auto simp: attachstack_def Let_def split: bind_splits)

lemma detachstack_same:
  assumes "detachstack s c = Some s'"
  shows "client_at s' = client_at s"
  using assms by (auto simp: detachstack_def Let_def split: bind_splits if_splits)

lemma detach_same:
  assumes "detach s c = Some s'"
  shows "client_at s' = client_at s"
  using assms by (auto simp: detach_def Let_def split: bind_splits if_splits)

lemma focus_client_at:
  assumes "focus s c0 = Some s'"
  shows "client_at s' = client_at s \<or> (\<exists>ci. client_at s' = client_at (clearurgent s ci))"
proof -
  from assms obtain v c t v' where
    t: "(case c of
               Some ci \<Rightarrow>
                 do {
                   let s = (if c_mon (client_at s ci) \<noteq> selmon s
                            then s\<lparr>selmon := c_mon (client_at s ci)\<rparr> else s);
                   let s = (if c_isurgent (client_at s ci) then clearurgent s ci else s);
                   s \<leftarrow> detachstack s ci;
                   attachstack s ci
                 }
             | None \<Rightarrow> Some s) = Some t"
    and s': "s' = setview t (selmon t) (m_selview (monitor_at t (selmon t))) (v'\<lparr>v_sel := c\<rparr>)"
    by (auto simp: focus_def Let_def split: bind_splits)
  have cu: "client_at (clearurgent (a\<lparr>selmon := mm\<rparr>) ci) = client_at (clearurgent a ci)" for a mm ci
    by (simp add: clearurgent_def setclient_def)
  have "client_at t = client_at s \<or> (\<exists>ci. client_at t = client_at (clearurgent s ci))"
  proof (cases c)
    case None
    with t show ?thesis by simp
  next
    case (Some ci)
    with t show ?thesis
      by (auto simp: Let_def cu split: if_splits bind_splits
          dest!: detachstack_same attachstack_same(1))
  qed
  then show ?thesis by (simp add: s')
qed

text \<open>\<^verbatim>\<open>focus\<close> changes no rectangle.\<close>

lemma focus_rect:
  assumes "focus s c0 = Some s'"
  shows "c_x (client_at s' c) = c_x (client_at s c)" "c_y (client_at s' c) = c_y (client_at s c)"
    "c_w (client_at s' c) = c_w (client_at s c)" "c_h (client_at s' c) = c_h (client_at s c)"
  using focus_client_at [OF assms]
  by (auto simp: clearurgent_def setclient_def)

section \<open>Managing, toggling, fullscreen\<close>

lemma updatesizehints_same [simp]:
  "c_x (updatesizehints X c) = c_x c" "c_y (updatesizehints X c) = c_y c"
  "c_w (updatesizehints X c) = c_w c" "c_h (updatesizehints X c) = c_h c"
  "c_bw (updatesizehints X c) = c_bw c" "c_isfloating (updatesizehints X c) = c_isfloating c"
  "c_mon (updatesizehints X c) = c_mon c" "c_view (updatesizehints X c) = c_view c"
  "c_win (updatesizehints X c) = c_win c" "c_oldbw (updatesizehints X c) = c_oldbw c"
  by (simp_all add: updatesizehints_def Let_def)

lemma resize_xy:
  "c_x (client_at (resize cfg s c x y w h i) c) = fst (sizehints cfg s c x y w h i)"
  "c_y (client_at (resize cfg s c x y w h i) c) = fst (snd (sizehints cfg s c x y w h i))"
  "c_w (client_at (resize cfg s c x y w h i) c) = fst (snd (snd (sizehints cfg s c x y w h i)))"
  "c_h (client_at (resize cfg s c x y w h i) c) = snd (snd (snd (sizehints cfg s c x y w h i)))"
  using resize_rect [of cfg s c x y w h i, symmetric] by (simp_all add: rect_def)

lemma manage_init_fields [simp]:
  "c_w (manage_init X s w wa) = wa_width wa" "c_h (manage_init X s w wa) = wa_height wa"
  "c_isfloating (manage_init X s w wa) = False" "c_bw (manage_init X s w wa) = 0"
  by (simp_all add: manage_init_def Let_def updatetitle_def cz_def)

lemma manage_place_mon [simp]: "c_mon (manage_place cfg s c) = c_mon c"
  by (simp add: manage_place_def Let_def)

lemma manage_place_screen_sized:
  "c_w c = m_mw (monitor_at s (c_mon c)) \<and> c_h c = m_mh (monitor_at s (c_mon c)) \<Longrightarrow>
   manage_place cfg s c = c\<lparr>c_isfloating := True, c_x := m_mx (monitor_at s (c_mon c)),
                              c_y := m_my (monitor_at s (c_mon c)), c_bw := 0\<rparr>"
  by (simp add: manage_place_def Let_def)

lemma manage_place_other:
  "\<not> (c_w c = m_mw (monitor_at s (c_mon c)) \<and> c_h c = m_mh (monitor_at s (c_mon c))) \<Longrightarrow>
   c_bw (manage_place cfg s c) = borderpx cfg"
  by (auto simp: manage_place_def Let_def)

lemma manage_client_fields [simp]:
  "c_mon (manage_client cfg X s w wa) = c_mon (manage_init X s w wa)"
  "c_bw (manage_client cfg X s w wa) = c_bw (manage_place cfg s (manage_init X s w wa))"
  "c_x (manage_client cfg X s w wa) = c_x (manage_place cfg s (manage_init X s w wa))"
  "c_y (manage_client cfg X s w wa) = c_y (manage_place cfg s (manage_init X s w wa))"
  by (simp_all add: manage_client_def Let_def)

lemma manage_client_floating:
  "c_isfloating (manage_place cfg s (manage_init X s w wa)) \<Longrightarrow> c_isfloating (manage_client cfg X s w wa)"
  by (simp add: manage_client_def Let_def)

lemma resize_own_at_origin:
  assumes "at_origin s c M"
  shows "at_origin (resize cfg s d (c_x (client_at s d)) (c_y (client_at s d))
                     (c_w (client_at s d)) (c_h (client_at s d)) False) c M"
proof (cases "d = c")
  case False
  with assms show ?thesis by (simp add: at_origin_def)
next
  case True
  have "fst (sizehints cfg s c (c_x (client_at s c)) (c_y (client_at s c)) (c_w (client_at s c)) (c_h (client_at s c)) False)
          = m_mx (monitor_at s M)
      \<and> fst (snd (sizehints cfg s c (c_x (client_at s c)) (c_y (client_at s c)) (c_w (client_at s c)) (c_h (client_at s c)) False))
          = m_my (monitor_at s M)"
    using assms by (simp add: sizehints_def Let_def at_origin_def split_def)
  then have "c_x (client_at (resize cfg s c (c_x (client_at s c)) (c_y (client_at s c)) (c_w (client_at s c)) (c_h (client_at s c)) False) c) = m_mx (monitor_at s M)
    \<and> c_y (client_at (resize cfg s c (c_x (client_at s c)) (c_y (client_at s c)) (c_w (client_at s c)) (c_h (client_at s c)) False) c) = m_my (monitor_at s M)"
    by (simp add: resize_xy)
  with assms True show ?thesis by (simp add: at_origin_def)
qed

lemma arranges_at_origin: "arranges cfg s s' \<Longrightarrow> at_origin s c M \<Longrightarrow> at_origin s' c M"
proof (induction rule: arranges.induct)
  case (arranges_refl s)
  then show ?case .
next
  case (arranges_tiled s d x y w h s')
  from arranges_tiled.prems arranges_tiled.hyps(1) have "d \<noteq> c" by (auto simp: at_origin_def)
  with arranges_tiled.prems have "at_origin (resize cfg s d x y w h False) c M"
    by (simp add: at_origin_def)
  then show ?case by (rule arranges_tiled.IH)
next
  case (arranges_own s d s')
  then show ?case by (blast intro: resize_own_at_origin)
next
  case (arranges_ltsymbol s m l s')
  from arranges_ltsymbol.prems have "at_origin (s\<lparr>monitor_at := (monitor_at s)(m := (monitor_at s m)\<lparr>m_ltsymbol := l\<rparr>)\<rparr>) c M"
    by (auto simp: at_origin_def)
  then show ?case by (rule arranges_ltsymbol.IH)
qed

lemma focus_at_origin:
  assumes "focus s c0 = Some s'" "at_origin s c M"
  shows "at_origin s' c M"
  using assms focus_rect [OF assms(1), of c] frame_client [OF frame_focus [OF assms(1)], of c]
    frame_monitor [OF frame_focus [OF assms(1)], of M]
  by (simp add: at_origin_def)

lemma arrange_at_origin:
  assumes "arrange cfg s m0 = Some s'" "at_origin s c M"
  shows "at_origin s' c M"
proof -
  from arrange_cases [OF assms(1)] obtain t u where
    "arranges cfg s t" "focus t None = Some u" "arranges cfg u s'" by blast
  with assms(2) show ?thesis
    by (blast intro: arranges_at_origin focus_at_origin)
qed

lemma manage_cases:
  assumes "manage cfg X s c w wa = Some s'"
  shows "\<exists>t. client_at t = (client_at s)(c := manage_client cfg X s w wa)
           \<and> (\<forall>m. m_mx (monitor_at t m) = m_mx (monitor_at s m) \<and> m_my (monitor_at t m) = m_my (monitor_at s m)
                 \<and> m_mw (monitor_at t m) = m_mw (monitor_at s m) \<and> m_mh (monitor_at t m) = m_mh (monitor_at s m))
           \<and> arrange cfg t (Some (c_mon (manage_client cfg X s w wa))) = Some s'"
proof -
  define s0 where "s0 = setclient s c (manage_client cfg X s w wa)"
  from assms obtain s1 s2 where a: "attach s0 c = Some s1" and b: "attachstack s1 c = Some s2"
    and c: "arrange cfg s2 (Some (c_mon (client_at s2 c))) = Some s'"
    by (auto simp: manage_def Let_def s0_def split: bind_splits)
  have cl: "client_at s2 = (client_at s)(c := manage_client cfg X s w wa)"
    using attach_same(1) [OF a] attachstack_same(1) [OF b] by (simp add: s0_def setclient_def)
  moreover have "m_mx (monitor_at s2 m) = m_mx (monitor_at s m) \<and> m_my (monitor_at s2 m) = m_my (monitor_at s m)
                 \<and> m_mw (monitor_at s2 m) = m_mw (monitor_at s m) \<and> m_mh (monitor_at s2 m) = m_mh (monitor_at s m)" for m
    using attach_same(3-6) [OF a, of m] attachstack_same(3-6) [OF b, of m] by (simp add: s0_def)
  moreover from c cl have "arrange cfg s2 (Some (c_mon (manage_client cfg X s w wa))) = Some s'"
    by simp
  ultimately show ?thesis by blast
qed

lemma arrange_flags:
  assumes "arrange cfg s m0 = Some s'"
  shows "c_isfixed (client_at s' c) = c_isfixed (client_at s c)"
    "c_isfloating (client_at s' c) = c_isfloating (client_at s c)"
    "c_bw (client_at s' c) = c_bw (client_at s c)"
  using frame_client [OF frame_arrange [OF assms], of c] by simp_all

lemma manage_client_fixed: "c_isfixed (manage_client cfg X s w wa) \<Longrightarrow> c_isfloating (manage_client cfg X s w wa)"
  by (simp add: manage_client_def Let_def split: if_splits)

lemma togglefloating_cases:
  assumes "togglefloating cfg s = Some s'" "SELVIEW s (selmon s) = Some v" "v_sel v = Some c"
  shows "\<exists>t. arrange cfg t (Some (selmon t)) = Some s'
           \<and> c_isfixed (client_at t c) = c_isfixed (client_at s c)
           \<and> c_isfloating (client_at t c) = (\<not> c_isfloating (client_at s c) \<or> c_isfixed (client_at s c))"
proof -
  define s1 where "s1 = setclient s c ((client_at s c)\<lparr>c_isfloating := (\<not> c_isfloating (client_at s c) \<or> c_isfixed (client_at s c))\<rparr>)"
  define s2 where "s2 = (if c_isfloating (client_at s1 c)
                       then resize cfg s1 c (c_x (client_at s1 c)) (c_y (client_at s1 c)) (c_w (client_at s1 c)) (c_h (client_at s1 c)) False else s1)"
  from assms have "arrange cfg s2 (Some (selmon s2)) = Some s'"
    by (simp add: togglefloating_def Let_def s1_def s2_def cong: if_cong)
  moreover have "c_isfixed (client_at s2 c) = c_isfixed (client_at s c)"
    "c_isfloating (client_at s2 c) = (\<not> c_isfloating (client_at s c) \<or> c_isfixed (client_at s c))"
    by (simp_all add: s2_def s1_def)
  ultimately show ?thesis by blast
qed

lemma wintoclient_cong:
  assumes "mons s' = mons s" "monitor_at s' = monitor_at s"
    and "\<And>c. c_win (client_at s' c) = c_win (client_at s c)"
  shows "wintoclient s' w = wintoclient s w"
  using assms by (simp add: wintoclient_def)

lemma enter_fullscreen_fields:
  "c_isfloating (client_at (enter_fullscreen s c) c)"
  "c_bw (client_at (enter_fullscreen s c) c) = 0"
  "rect (client_at (enter_fullscreen s c) c)
     = (m_mx (monitor_at s (c_mon (client_at s c))), m_my (monitor_at s (c_mon (client_at s c))),
        m_mw (monitor_at s (c_mon (client_at s c))), m_mh (monitor_at s (c_mon (client_at s c))))"
  "c_mon (client_at (enter_fullscreen s c) d) = c_mon (client_at s d)"
  "c_win (client_at (enter_fullscreen s c) d) = c_win (client_at s d)"
  "monitor_at (enter_fullscreen s c) = monitor_at s"
  "mons (enter_fullscreen s c) = mons s"
  by (simp_all add: enter_fullscreen_def Let_def resizeclient_def setclient_def rect_def)

lemma leave_enter_fullscreen:
  "rect (client_at (leave_fullscreen (enter_fullscreen s c) c) c) = rect (client_at s c)"
  "c_bw (client_at (leave_fullscreen (enter_fullscreen s c) c) c) = c_bw (client_at s c)"
  "c_isfloating (client_at (leave_fullscreen (enter_fullscreen s c) c) c) = c_isfloating (client_at s c)"
  "c_mon (client_at (leave_fullscreen (enter_fullscreen s c) c) c) = c_mon (client_at s c)"
  by (simp_all add: leave_fullscreen_def enter_fullscreen_def Let_def resizeclient_def setclient_def rect_def)

section \<open>The master fraction\<close>

lemma pow_nat_powr: "0 \<le> k \<Longrightarrow> (2::real) ^ nat k = 2 powr (real_of_int k)"
  by (simp add: powr_realpow [symmetric])

lemma fle_iff:
  "fle (Fl a ea) (Fl b eb) \<longleftrightarrow> fval (Fl a ea) \<le> fval (Fl b eb)"
proof -
  define e where "e = min ea eb"
  have nn: "0 \<le> ea - e" "0 \<le> eb - e" by (simp_all add: e_def)
  have "fle (Fl a ea) (Fl b eb)
        = (real_of_int (a * 2 ^ nat (ea - e)) \<le> real_of_int (b * 2 ^ nat (eb - e)))"
    by (simp add: Let_def e_def del: of_int_mult of_int_power)
  also have "\<dots> = (real_of_int a * 2 powr real_of_int (ea - e) \<le> real_of_int b * 2 powr real_of_int (eb - e))"
    using nn by (simp add: pow_nat_powr)
  also have "\<dots> = (real_of_int a * 2 powr real_of_int (ea - e) * 2 powr real_of_int e
                    \<le> real_of_int b * 2 powr real_of_int (eb - e) * 2 powr real_of_int e)"
    by simp
  also have "\<dots> = (real_of_int a * 2 powr real_of_int ea \<le> real_of_int b * 2 powr real_of_int eb)"
    by (simp add: mult.assoc powr_add [symmetric])
  finally show ?thesis by simp
qed

lemma dlit_values: "dlit 1 10 = Fl 7205759403792794 (- 56)" "dlit 9 10 = Fl 8106479329266893 (- 53)"
  by code_simp+

lemma mfact_lower:
  assumes "fle (dlit 1 10) (Fl m e)"
  shows "1 / 10 \<le> fval (Fl m e)"
proof -
  from assms have "fval (Fl 7205759403792794 (- 56)) \<le> fval (Fl m e)"
    by (simp only: dlit_values fle_iff)
  moreover have "(1::real) / 10 \<le> fval (Fl 7205759403792794 (- 56))"
    by (simp add: powr_minus powr_realpow [of 2 56, simplified])
  ultimately show ?thesis by linarith
qed

lemma mfact_upper:
  assumes "fle (Fl m e) (dlit 9 10)" "\<bar>m\<bar> \<le> 2 ^ 24"
  shows "fval (Fl m e) \<le> 9 / 10"
proof (cases "- 24 \<le> e")
  case True
  define j where "j = m * 2 ^ nat (e + 24)"
  have "fle (Fl m e) (Fl 8106479329266893 (- 53))" using assms(1) by (simp only: dlit_values)
  then have "m * 2 ^ nat (e + 53) \<le> 8106479329266893"
    using True by (simp add: Let_def min_def split: if_splits)
  moreover have "m * 2 ^ nat (e + 53) = j * 2 ^ 29"
  proof -
    have "nat (e + 53) = nat (e + 24) + 29" using True by simp
    then show ?thesis by (simp add: j_def power_add)
  qed
  ultimately have "j * 536870912 \<le> 8106479329266893" by simp
  then have j: "j \<le> 15099494" by simp
  have "fval (Fl m e) = real_of_int j / 2 ^ 24"
  proof -
    have "2 powr real_of_int e = 2 powr real_of_int (e + 24) / 2 ^ 24"
      by (simp add: powr_add powr_realpow [of 2 24, simplified])
    also have "2 powr real_of_int (e + 24) = 2 ^ nat (e + 24)"
      using True by (simp add: pow_nat_powr)
    finally show ?thesis by (simp add: j_def)
  qed
  also have "\<dots> \<le> 15099494 / 2 ^ 24"
    using j by (simp add: divide_right_mono)
  also have "\<dots> \<le> 9 / 10" by simp
  finally show ?thesis .
next
  case False
  then have e: "e \<le> - 25" by simp
  have "fval (Fl m e) \<le> \<bar>real_of_int m\<bar> * 2 powr real_of_int e"
    by (simp add: mult_right_mono)
  also have "\<dots> \<le> 2 ^ 24 * 2 powr real_of_int e"
  proof -
    have "\<bar>real_of_int m\<bar> \<le> 2 ^ 24" using assms(2)
      by (metis of_int_abs of_int_le_iff of_int_numeral of_int_power)
    then show ?thesis by (simp add: mult_right_mono)
  qed
  also have "\<dots> \<le> 2 ^ 24 * 2 powr (- 25)"
    using e by (simp add: powr_mono)
  also have "\<dots> \<le> 9 / 10"
    by (simp add: powr_minus powr_realpow [of 2 25, simplified])
  finally show ?thesis .
qed

lemma div_pow2_less:
  assumes "(m::int) < c * 2 ^ k"
  shows "m div 2 ^ k < c"
proof -
  have "m div 2 ^ k * 2 ^ k + m mod 2 ^ k = m" by (rule div_mult_mod_eq)
  moreover have "0 \<le> m mod 2 ^ k" by simp
  ultimately have "m div 2 ^ k * 2 ^ k \<le> m" by linarith
  with assms have "m div 2 ^ k * 2 ^ k < c * 2 ^ k" by linarith
  then show ?thesis by (simp add: mult_less_cancel_right)
qed

lemma div_pow2_ge:
  assumes "- (c * 2 ^ k) < (m::int)"
  shows "- c \<le> m div 2 ^ k"
proof -
  have "m div 2 ^ k * 2 ^ k + m mod 2 ^ k = m" by (rule div_mult_mod_eq)
  moreover have "m mod 2 ^ k < 2 ^ k" by simp
  ultimately have "m < m div 2 ^ k * 2 ^ k + 2 ^ k" by linarith
  with assms have "- (c * 2 ^ k) < (m div 2 ^ k + 1) * 2 ^ k" by (simp add: algebra_simps)
  then have "(- c) * 2 ^ k < (m div 2 ^ k + 1) * 2 ^ k" by simp
  then have "- c < m div 2 ^ k + 1" by (simp only: mult_less_cancel_right) simp
  then show ?thesis by simp
qed

lemma round_even_bound:
  "\<bar>round_even (nat (bitlen \<bar>m\<bar> - int p)) m\<bar> \<le> 2 ^ p"
proof (cases "m = 0")
  case True
  then show ?thesis by (simp add: round_even_def)
next
  case False
  then have pos: "0 < \<bar>m\<bar>" by simp
  define n where "n = bitlen \<bar>m\<bar>"
  have ub: "\<bar>m\<bar> < 2 ^ nat n" using bitlen_bounds [OF pos] by (simp add: n_def)
  have n0: "0 \<le> n" by (simp add: n_def bitlen_nonneg)
  show ?thesis
  proof (cases "n \<le> int p")
    case True
    then have k: "nat (bitlen \<bar>m\<bar> - int p) = 0" by (simp add: n_def)
    have "nat n \<le> p" using True by simp
    then have "(2::int) ^ nat n \<le> 2 ^ p" by (intro power_increasing) auto
    with ub have "\<bar>m\<bar> \<le> 2 ^ p" by linarith
    then show ?thesis by (simp add: k round_even_def)
  next
    case False
    define k where "k = nat (n - int p)"
    have nk: "nat n = p + k" using False by (simp add: k_def)
    have m: "- (2 ^ p * 2 ^ k) < m" "m < 2 ^ p * 2 ^ k"
      using ub by (auto simp: nk power_add)
    define q where "q = m div 2 ^ k"
    have q1: "q < 2 ^ p"
      unfolding q_def using m(2) by (rule div_pow2_less)
    have q2: "- (2 ^ p) \<le> q"
      unfolding q_def using m(1) by (rule div_pow2_ge)
    have "round_even k m = q \<or> round_even k m = q + 1"
      by (simp add: round_even_def Let_def q_def)
    with q1 q2 have "\<bar>round_even k m\<bar> \<le> 2 ^ p" by auto
    then show ?thesis by (simp add: k_def n_def)
  qed
qed

lemma is_float_fround: "is_float (fround 24 m e)"
  using round_even_bound [of m 24] by (simp add: fround_def Let_def)

lemma is_float_faddp: "is_float (faddp 24 a b)"
  by (cases a; cases b) (simp_all add: Let_def is_float_fround)

lemma views_mfact_valid_frame:
  assumes "frame s s'" "views_mfact_valid s"
  shows "views_mfact_valid s'"
proof -
  have "list_all (\<lambda>v. mfact_valid (v_mfact v)) (m_views (monitor_at s' m))
      = list_all (\<lambda>v. mfact_valid (v_mfact v)) (m_views (monitor_at s m))" for m
  proof -
    have e: "list_all (\<lambda>v. mfact_valid (v_mfact v)) (m_views (monitor_at t m))
        = list_all mfact_valid (map v_mfact (m_views (monitor_at t m)))" for t
      by (simp add: list_all_iff)
    show ?thesis unfolding e by (simp only: frame_monitor(6) [OF assms(1), of m])
  qed
  moreover have "mons s' = mons s" using assms(1) by (simp add: frame_def)
  ultimately show ?thesis using assms(2) by (simp add: views_mfact_valid_def)
qed

lemma views_mfact_valid_setview:
  assumes "views_mfact_valid s" "mfact_valid (v_mfact v)"
  shows "views_mfact_valid (setview s m i v)"
proof -
  have "mfact_valid (v_mfact x)"
    if "m' \<in> set (mons s)" "x \<in> set (m_views (monitor_at (setview s m i v) m'))" for m' x
  proof -
    from assms(1) that(1) have a: "\<And>y. y \<in> set (m_views (monitor_at s m')) \<Longrightarrow> mfact_valid (v_mfact y)"
      by (simp add: views_mfact_valid_def list_all_iff)
    show ?thesis
    proof (cases "m' = m")
      case True
      with that(2) have "x \<in> insert v (set (m_views (monitor_at s m)))"
        using set_update_subset_insert [of "m_views (monitor_at s m)" i v]
        by (auto simp: setview_def)
      with a True assms(2) show ?thesis by auto
    next
      case False
      with that(2) a show ?thesis by (simp add: setview_def)
    qed
  qed
  then show ?thesis
    by (simp add: views_mfact_valid_def list_all_iff)
qed

lemma mfact_valid_real:
  assumes "mfact_valid f"
  shows "ffinite f \<and> 1 / 10 \<le> fval f \<and> fval f \<le> 9 / 10"
proof (cases f)
  case (Fl m e)
  with assms mfact_lower [of m e] mfact_upper [of m e] show ?thesis
    by (simp add: mfact_valid_def mfact_in_range_def)
next
  case (FlInf b)
  with assms show ?thesis
    by (cases b) (simp_all add: mfact_valid_def mfact_in_range_def dlit_values)
next
  case FlNaN
  with assms show ?thesis
    by (simp add: mfact_valid_def mfact_in_range_def dlit_values)
qed

lemma setmfact_ignored:
  assumes "SELVIEW s (selmon s) = Some v"
    and "arg = None \<or> (\<exists>f. arg = Some f \<and> (\<not> flt (Fl (- 1) 0) f \<or> \<not> flt f (Fl 1 0)
           \<or> lt_arrange (v_lt v) = None \<or> \<not> mfact_in_range (faddp 24 f (v_mfact v))))"
  shows "setmfact cfg s arg = Some s"
  using assms by (auto simp: setmfact_def Let_def)

lemma setmfact_applied:
  assumes "SELVIEW s (selmon s) = Some v" "flt (Fl (- 1) 0) f" "flt f (Fl 1 0)"
    "lt_arrange (v_lt v) \<noteq> None" "mfact_in_range (faddp 24 f (v_mfact v))"
  shows "setmfact cfg s (Some f)
       = arrange cfg (setview s (selmon s) (m_selview (monitor_at s (selmon s)))
                        (v\<lparr>v_mfact := faddp 24 f (v_mfact v)\<rparr>)) (Some (selmon s))"
  using assms by (auto simp: setmfact_def Let_def)

lemma setmfact_cases:
  assumes "setmfact cfg s arg = Some s'"
  shows "s' = s \<or> (\<exists>f v. arg = Some f \<and> SELVIEW s (selmon s) = Some v \<and> flt (Fl (- 1) 0) f \<and> flt f (Fl 1 0)
           \<and> lt_arrange (v_lt v) \<noteq> None \<and> mfact_in_range (faddp 24 f (v_mfact v)))"
  using assms by (auto simp: setmfact_def Let_def split: option.splits if_splits bind_splits)

lemma createmon_mfact:
  "createmon cfg raw = Some m \<Longrightarrow> list_all (\<lambda>v. v_mfact v = mfact cfg) (m_views m)"
  by (auto simp: createmon_def list_all_iff split: list.splits)

section \<open>Rounding\<close>

text \<open>
  Rounding to \<open>p\<close> bits changes a value by at most its \<open>2 ^ p\<close>-th part; the
  conversion of a non-negative floating value to \<^verbatim>\<open>int\<close> rounds down.
\<close>

lemma round_even_err: "2 * \<bar>round_even k m * 2 ^ k - m\<bar> \<le> 2 ^ k"
proof -
  define q where "q = m div 2 ^ k"
  define r where "r = m mod 2 ^ k"
  have m: "m = q * 2 ^ k + r" using div_mult_mod_eq [of m "2 ^ k"] by (simp add: q_def r_def)
  have r: "0 \<le> r" "r < 2 ^ k" by (simp_all add: r_def)
  have "round_even k m = (if 2 ^ k < 2 * r \<or> (2 * r = 2 ^ k \<and> odd q) then q + 1 else q)"
    by (simp add: round_even_def Let_def q_def r_def)
  then consider (up) "round_even k m = q + 1" "2 ^ k \<le> 2 * r"
    | (down) "round_even k m = q" "2 * r \<le> 2 ^ k"
    by (auto split: if_splits)
  then show ?thesis
  proof cases
    case up
    have "(q + 1) * 2 ^ k - m = 2 ^ k - r" using m by (simp add: algebra_simps)
    with up r show ?thesis by simp
  next
    case down
    have "q * 2 ^ k - m = - r" using m by simp
    with down r show ?thesis by simp
  qed
qed

lemma round_even_0: "round_even 0 m = m"
  by (simp add: round_even_def)

lemma round_even_nonneg: "0 \<le> m \<Longrightarrow> 0 \<le> round_even k m"
  by (simp add: round_even_def Let_def pos_imp_zdiv_nonneg_iff)

lemma fround_err_int:
  "2 ^ p * \<bar>round_even (nat (bitlen \<bar>m\<bar> - int p)) m * 2 ^ nat (bitlen \<bar>m\<bar> - int p) - m\<bar> \<le> \<bar>m\<bar>"
proof (cases "bitlen \<bar>m\<bar> \<le> int p")
  case True
  then show ?thesis by (simp add: round_even_0)
next
  case False
  define k where "k = nat (bitlen \<bar>m\<bar> - int p)"
  from False have k: "0 < k" by (simp add: k_def)
  from False have "m \<noteq> 0" by auto
  then have "0 < \<bar>m\<bar>" by simp
  from bitlen_bounds [OF this] have "2 ^ nat (bitlen \<bar>m\<bar> - 1) \<le> \<bar>m\<bar>" by simp
  moreover have "nat (bitlen \<bar>m\<bar> - 1) = p + (k - 1)" using False k by (simp add: k_def)
  ultimately have lb: "2 ^ p * 2 ^ (k - 1) \<le> \<bar>m\<bar>" by (simp add: power_add)
  have "2 * \<bar>round_even k m * 2 ^ k - m\<bar> \<le> 2 * 2 ^ (k - 1)"
    using round_even_err [of k m] k by (cases k) simp_all
  then have "\<bar>round_even k m * 2 ^ k - m\<bar> \<le> 2 ^ (k - 1)" by simp
  then have "2 ^ p * \<bar>round_even k m * 2 ^ k - m\<bar> \<le> 2 ^ p * 2 ^ (k - 1)"
    by (simp add: mult_left_mono)
  with lb have "2 ^ p * \<bar>round_even k m * 2 ^ k - m\<bar> \<le> \<bar>m\<bar>" by linarith
  then show ?thesis by (simp only: k_def)
qed

lemma fround_err:
  "\<bar>fval (fround p m e) - of_int m * 2 powr of_int e\<bar> \<le> \<bar>of_int m * 2 powr of_int e\<bar> / 2 ^ p"
proof -
  define k where "k = nat (bitlen \<bar>m\<bar> - int p)"
  define d where "d = round_even k m * 2 ^ k - m"
  have "fval (fround p m e) = of_int (round_even k m) * 2 powr (of_int e + of_int (int k))"
    by (simp add: fround_def Let_def k_def)
  also have "\<dots> = of_int (round_even k m * 2 ^ k) * 2 powr of_int e"
    by (simp add: powr_add powr_realpow)
  finally have "fval (fround p m e) - of_int m * 2 powr of_int e = of_int d * 2 powr of_int e"
    by (simp add: d_def algebra_simps)
  then have 1: "\<bar>fval (fround p m e) - of_int m * 2 powr of_int e\<bar> = \<bar>real_of_int d\<bar> * 2 powr of_int e"
    by (simp add: abs_mult)
  have "2 ^ p * \<bar>d\<bar> \<le> \<bar>m\<bar>" unfolding d_def k_def by (rule fround_err_int)
  then have "real_of_int (2 ^ p * \<bar>d\<bar>) \<le> real_of_int \<bar>m\<bar>" by (simp only: of_int_le_iff)
  then have "2 ^ p * \<bar>real_of_int d\<bar> \<le> \<bar>real_of_int m\<bar>" by simp
  then have "\<bar>real_of_int d\<bar> \<le> \<bar>real_of_int m\<bar> / 2 ^ p"
    by (simp add: pos_le_divide_eq mult.commute)
  then have "\<bar>real_of_int d\<bar> * 2 powr of_int e \<le> \<bar>real_of_int m\<bar> / 2 ^ p * 2 powr of_int e"
    by (intro mult_right_mono) simp_all
  also have "\<dots> = \<bar>of_int m * 2 powr of_int e\<bar> / 2 ^ p"
    by (simp add: abs_mult)
  finally show ?thesis by (simp only: 1)
qed

lemma fround_Fl:
  "\<exists>m' e'. fround p m e = Fl m' e' \<and> (0 \<le> m \<longrightarrow> 0 \<le> m')"
  by (simp add: fround_def Let_def round_even_nonneg)

lemma pow_nat_powr_shift:
  assumes "e \<le> e1"
  shows "real_of_int (m * 2 ^ nat (e1 - e)) * 2 powr real_of_int e = real_of_int m * 2 powr real_of_int e1"
proof -
  have "(2::real) ^ nat (e1 - e) = 2 powr real_of_int (e1 - e)"
    using assms by (simp add: pow_nat_powr)
  then have "real_of_int (m * 2 ^ nat (e1 - e)) * 2 powr real_of_int e
      = real_of_int m * (2 powr real_of_int (e1 - e) * 2 powr real_of_int e)" by simp
  also have "2 powr real_of_int (e1 - e) * 2 powr real_of_int e = 2 powr real_of_int e1"
    by (simp add: powr_add [symmetric])
  finally show ?thesis .
qed

lemma faddp_err:
  "\<exists>m e. faddp p (Fl m1 e1) (Fl m2 e2) = Fl m e \<and> (0 \<le> m1 \<and> 0 \<le> m2 \<longrightarrow> 0 \<le> m)
     \<and> \<bar>fval (Fl m e) - (fval (Fl m1 e1) + fval (Fl m2 e2))\<bar>
         \<le> \<bar>fval (Fl m1 e1) + fval (Fl m2 e2)\<bar> / 2 ^ p"
proof -
  define e where "e = min e1 e2"
  define s where "s = m1 * 2 ^ nat (e1 - e) + m2 * 2 ^ nat (e2 - e)"
  have f: "faddp p (Fl m1 e1) (Fl m2 e2) = fround p s e" by (simp add: Let_def e_def s_def)
  have le: "e \<le> e1" "e \<le> e2" by (simp_all add: e_def)
  have "real_of_int s * 2 powr real_of_int e
      = real_of_int (m1 * 2 ^ nat (e1 - e)) * 2 powr real_of_int e
        + real_of_int (m2 * 2 ^ nat (e2 - e)) * 2 powr real_of_int e"
    unfolding s_def by (simp only: of_int_add distrib_right)
  also have "\<dots> = fval (Fl m1 e1) + fval (Fl m2 e2)"
    by (simp only: pow_nat_powr_shift [OF le(1)] pow_nat_powr_shift [OF le(2)] fval.simps)
  finally have ex: "real_of_int s * 2 powr real_of_int e = fval (Fl m1 e1) + fval (Fl m2 e2)" .
  from fround_Fl [of p s e] obtain m' e' where r: "fround p s e = Fl m' e'" "0 \<le> s \<longrightarrow> 0 \<le> m'"
    by blast
  have "0 \<le> m1 \<and> 0 \<le> m2 \<longrightarrow> 0 \<le> s" by (simp add: s_def)
  with r(2) have nn: "0 \<le> m1 \<and> 0 \<le> m2 \<longrightarrow> 0 \<le> m'" by blast
  from fround_err [of p s e] have "\<bar>fval (Fl m' e') - (fval (Fl m1 e1) + fval (Fl m2 e2))\<bar>
         \<le> \<bar>fval (Fl m1 e1) + fval (Fl m2 e2)\<bar> / 2 ^ p"
    by (simp only: r(1) ex)
  with f r(1) nn show ?thesis by (intro exI [of _ m'] exI [of _ e']) simp
qed

lemma fmul_err:
  "\<exists>m e. fmul (Fl m1 e1) (Fl m2 e2) = Fl m e \<and> (0 \<le> m1 \<and> 0 \<le> m2 \<longrightarrow> 0 \<le> m)
     \<and> \<bar>fval (Fl m e) - fval (Fl m1 e1) * fval (Fl m2 e2)\<bar>
         \<le> \<bar>fval (Fl m1 e1) * fval (Fl m2 e2)\<bar> / 2 ^ 24"
proof -
  have ex: "real_of_int (m1 * m2) * 2 powr real_of_int (e1 + e2) = fval (Fl m1 e1) * fval (Fl m2 e2)"
    by (simp add: powr_add)
  from fround_Fl [of 24 "m1 * m2" "e1 + e2"] obtain m' e'
    where r: "fround 24 (m1 * m2) (e1 + e2) = Fl m' e'" "0 \<le> m1 * m2 \<longrightarrow> 0 \<le> m'"
    by blast
  have "0 \<le> m1 \<and> 0 \<le> m2 \<longrightarrow> 0 \<le> m1 * m2" by simp
  with r(2) have nn: "0 \<le> m1 \<and> 0 \<le> m2 \<longrightarrow> 0 \<le> m'" by blast
  from fround_err [of 24 "m1 * m2" "e1 + e2"]
  have "\<bar>fval (Fl m' e') - fval (Fl m1 e1) * fval (Fl m2 e2)\<bar>
         \<le> \<bar>fval (Fl m1 e1) * fval (Fl m2 e2)\<bar> / 2 ^ 24"
    by (simp only: r(1) ex)
  with r(1) nn show ?thesis by (intro exI [of _ m'] exI [of _ e']) simp
qed

lemma float_of_int_err:
  "\<exists>m e. float_of_int n = Fl m e \<and> (0 \<le> n \<longrightarrow> 0 \<le> m)
     \<and> \<bar>fval (Fl m e) - real_of_int n\<bar> \<le> \<bar>real_of_int n\<bar> / 2 ^ 24"
proof -
  from fround_Fl [of 24 n 0] obtain m' e' where r: "fround 24 n 0 = Fl m' e'" "0 \<le> n \<longrightarrow> 0 \<le> m'"
    by blast
  from fround_err [of 24 n 0] have "\<bar>fval (Fl m' e') - real_of_int n\<bar> \<le> \<bar>real_of_int n\<bar> / 2 ^ 24"
    by (simp add: r(1))
  with r show ?thesis by (simp add: float_of_int_def)
qed

lemma int_of_float_trunc:
  assumes "0 \<le> m"
  shows "real_of_int (int_of_float (Fl m e)) \<le> fval (Fl m e)"
    and "fval (Fl m e) < real_of_int (int_of_float (Fl m e)) + 1"
proof -
  show "real_of_int (int_of_float (Fl m e)) \<le> fval (Fl m e)"
  proof (cases "0 \<le> e")
    case True
    then show ?thesis by (simp add: pow_nat_powr)
  next
    case False
    define k where "k = nat (- e)"
    have p: "2 powr real_of_int e = 1 / 2 ^ k"
      using False by (simp add: k_def powr_minus_divide [of 2 "- real_of_int e", simplified] pow_nat_powr [symmetric] powr_realpow [symmetric])
    have "real_of_int (m div 2 ^ k) \<le> real_of_int m / real_of_int (2 ^ k)"
      by (metis floor_divide_of_int_eq of_int_floor_le)
    with assms False p show ?thesis
      by (cases "m = 0") (simp_all add: k_def)
  qed
  show "fval (Fl m e) < real_of_int (int_of_float (Fl m e)) + 1"
  proof (cases "0 \<le> e")
    case True
    then show ?thesis by (simp add: pow_nat_powr)
  next
    case False
    define k where "k = nat (- e)"
    have p: "2 powr real_of_int e = 1 / 2 ^ k"
      using False by (simp add: k_def powr_minus_divide [of 2 "- real_of_int e", simplified] pow_nat_powr [symmetric] powr_realpow [symmetric])
    have "real_of_int m / real_of_int (2 ^ k) < real_of_int (m div 2 ^ k) + 1"
      by (metis floor_divide_of_int_eq real_of_int_floor_add_one_gt)
    with assms False p show ?thesis
      by (cases "m = 0") (simp_all add: k_def)
  qed
qed

lemma dlit_half: "dlit 5 10 = Fl 4503599627370496 (- 53)"
  by code_simp

lemma fval_half: "fval (Fl 4503599627370496 (- 53)) = 1 / 2"
  by (simp add: powr_minus powr_realpow [of 2 53, simplified])

lemma round_chain_upper:
  fixes x y P S i :: real
  assumes "y - x \<le> x / 16777216" "P - y \<le> y / 16777216"
    "S - (P + 1 / 2) \<le> (P + 1 / 2) / 9007199254740992" "i \<le> S" "0 \<le> x"
  shows "i - x \<le> 1 / 2 + (x + 1) / 4194304"
proof -
  have 1: "y \<le> x * (16777217 / 16777216)" using assms(1) by simp
  have 2: "P \<le> y * (16777217 / 16777216)" using assms(2) by simp
  have "y * (16777217 / 16777216) \<le> x * (16777217 / 16777216) * (16777217 / 16777216)"
    using 1 by (intro mult_right_mono) simp_all
  with 2 have 3: "P \<le> x * (16777217 / 16777216) * (16777217 / 16777216)" by linarith
  have 4: "S \<le> (P + 1 / 2) * (9007199254740993 / 9007199254740992)" using assms(3) by simp
  have "(P + 1 / 2) * (9007199254740993 / 9007199254740992)
      \<le> (x * (16777217 / 16777216) * (16777217 / 16777216) + 1 / 2) * (9007199254740993 / 9007199254740992)"
    using 3 by (intro mult_right_mono) simp_all
  with 4 assms(4) have "i \<le> (x * (16777217 / 16777216) * (16777217 / 16777216) + 1 / 2) * (9007199254740993 / 9007199254740992)"
    by linarith
  also have "\<dots> \<le> x + 1 / 2 + (x + 1) / 4194304"
    using assms(5) by (simp add: field_simps)
  finally show ?thesis by simp
qed

lemma round_chain_lower:
  fixes x y P S i :: real
  assumes "- (y - x) \<le> x / 16777216" "- (P - y) \<le> y / 16777216"
    "- (S - (P + 1 / 2)) \<le> (P + 1 / 2) / 9007199254740992" "S < i + 1" "0 \<le> x"
  shows "x - i \<le> 1 / 2 + (x + 1) / 4194304"
proof -
  have 1: "x * (16777215 / 16777216) \<le> y" using assms(1) by simp
  have 2: "y * (16777215 / 16777216) \<le> P" using assms(2) by simp
  have "x * (16777215 / 16777216) * (16777215 / 16777216) \<le> y * (16777215 / 16777216)"
    using 1 by (intro mult_right_mono) simp_all
  with 2 have 3: "x * (16777215 / 16777216) * (16777215 / 16777216) \<le> P" by linarith
  have 4: "(P + 1 / 2) * (9007199254740991 / 9007199254740992) \<le> S" using assms(3) by simp
  have "(x * (16777215 / 16777216) * (16777215 / 16777216) + 1 / 2) * (9007199254740991 / 9007199254740992)
      \<le> (P + 1 / 2) * (9007199254740991 / 9007199254740992)"
    using 3 by (intro mult_right_mono) simp_all
  with 4 assms(4) have "(x * (16777215 / 16777216) * (16777215 / 16777216) + 1 / 2) * (9007199254740991 / 9007199254740992) - 1 \<le> i"
    by linarith
  moreover have "x - 1 / 2 - (x + 1) / 4194304
      \<le> (x * (16777215 / 16777216) * (16777215 / 16777216) + 1 / 2) * (9007199254740991 / 9007199254740992) - 1"
    using assms(5) by (simp add: field_simps)
  ultimately show ?thesis by linarith
qed


lemma aspect_round:
  assumes "0 \<le> n" "0 \<le> a"
  shows "\<bar>real_of_int (int_of_float (faddp 53 (fmul (float_of_int n) (Fl a ea)) (dlit 5 10)))
            - real_of_int n * fval (Fl a ea)\<bar>
         \<le> 1 / 2 + (real_of_int n * fval (Fl a ea) + 1) / 2 ^ 22"
proof -
  define M where "M = fval (Fl a ea)"
  define x where "x = real_of_int n * M"
  have M: "0 \<le> M" using assms(2) by (simp add: M_def)
  have n: "0 \<le> real_of_int n" using assms(1) by simp
  from float_of_int_err [of n] assms(1) obtain hm he
    where H: "float_of_int n = Fl hm he" "0 \<le> hm"
      and He: "\<bar>fval (Fl hm he) - real_of_int n\<bar> \<le> \<bar>real_of_int n\<bar> / 2 ^ 24"
    by blast
  define y where "y = fval (Fl hm he) * M"
  have "y - x = (fval (Fl hm he) - real_of_int n) * M"
    by (simp add: y_def x_def algebra_simps)
  then have "\<bar>y - x\<bar> = \<bar>fval (Fl hm he) - real_of_int n\<bar> * M"
    using M by (simp only: abs_mult abs_of_nonneg)
  also have "\<dots> \<le> \<bar>real_of_int n\<bar> / 2 ^ 24 * M"
    using He M by (rule mult_right_mono)
  also have "\<dots> = x / 2 ^ 24" using n by (simp add: x_def)
  finally have 1: "\<bar>y - x\<bar> \<le> x / 2 ^ 24" .
  have x0: "0 \<le> x" using n M by (simp add: x_def)
  have y0: "0 \<le> y" using H(2) M by (simp add: y_def)
  from fmul_err [of hm he a ea] H(2) assms(2) obtain pm pe
    where P: "fmul (Fl hm he) (Fl a ea) = Fl pm pe" "0 \<le> pm"
      and Pe: "\<bar>fval (Fl pm pe) - y\<bar> \<le> \<bar>y\<bar> / 2 ^ 24"
    unfolding y_def M_def by blast
  define P where "P = fval (Fl pm pe)"
  have P0: "0 \<le> P" using P(2) by (simp add: P_def)
  from faddp_err [of 53 pm pe 4503599627370496 "- 53"] P(2) obtain sm se
    where S: "faddp 53 (Fl pm pe) (Fl 4503599627370496 (- 53)) = Fl sm se" "0 \<le> sm"
      and Se: "\<bar>fval (Fl sm se) - (P + 1 / 2)\<bar> \<le> \<bar>P + 1 / 2\<bar> / 2 ^ 53"
    unfolding P_def fval_half by auto
  define S where "S = fval (Fl sm se)"
  define i where "i = real_of_int (int_of_float (Fl sm se))"
  from int_of_float_trunc [OF S(2), of se] have T: "i \<le> S" "S < i + 1"
    by (simp_all add: i_def S_def)
  have 2: "\<bar>P - y\<bar> \<le> y / 2 ^ 24" using Pe y0 by (simp add: P_def)
  have 3: "\<bar>S - (P + 1 / 2)\<bar> \<le> (P + 1 / 2) / 2 ^ 53" using Se P0 by (simp add: S_def)
  have e: "(2::real) ^ 24 = 16777216" "(2::real) ^ 53 = 9007199254740992" by simp_all
  from 1 [unfolded abs_le_iff e] have a: "y - x \<le> x / 16777216" "- (y - x) \<le> x / 16777216"
    by blast+
  from 2 [unfolded abs_le_iff e] have b: "P - y \<le> y / 16777216" "- (P - y) \<le> y / 16777216"
    by blast+
  from 3 [unfolded abs_le_iff e] have c: "S - (P + 1 / 2) \<le> (P + 1 / 2) / 9007199254740992"
    "- (S - (P + 1 / 2)) \<le> (P + 1 / 2) / 9007199254740992"
    by blast+
  have "i - x \<le> 1 / 2 + (x + 1) / 4194304"
    using a(1) b(1) c(1) T(1) x0 by (rule round_chain_upper)
  moreover have "x - i \<le> 1 / 2 + (x + 1) / 4194304"
    using a(2) b(2) c(2) T(2) x0 by (rule round_chain_lower)
  ultimately have "\<bar>i - x\<bar> \<le> 1 / 2 + (x + 1) / 2 ^ 22"
    by (simp add: abs_le_iff)
  then show ?thesis
    by (simp only: i_def x_def M_def H(1) P(1) dlit_half S(1))
qed


lemma flt_pos: "flt (Fl 0 0) x \<Longrightarrow> (\<exists>m e. x = Fl m e \<and> 0 < m) \<or> x = FlInf False"
  by (cases x) (auto simp: Let_def zero_less_mult_iff)

lemma flt_finite_left: "flt x y \<Longrightarrow> flt (Fl 0 0) x \<Longrightarrow> \<exists>m e. x = Fl m e \<and> 0 < m"
  by (cases x; cases y) (auto simp: Let_def zero_less_mult_iff)

section \<open>Selected clients and focus stacks\<close>

lemma wellformed_iff:
  "wellformed s \<longleftrightarrow>
     selmon s \<in> set (mons s)
     \<and> (\<forall>m\<in>set (mons s). length (m_views (monitor_at s m)) = NUMVIEWS
           \<and> m_selview (monitor_at s m) < NUMVIEWS
           \<and> (\<forall>i<NUMVIEWS. distinct (stack_of s m i)
                 \<and> (\<forall>c\<in>set (stack_of s m i). c_mon (client_at s c) = m \<and> c_view (client_at s c) = i)))"
  by (auto simp: wellformed_def mon_wf_def view_wf_def list_all_iff)

lemma sel_ok_iff:
  "sel_ok s m \<longleftrightarrow>
     m_selview (monitor_at s m) < NUMVIEWS
     \<and> m_selview (monitor_at s m) < length (m_views (monitor_at s m))
     \<and> (sel_of s m (m_selview (monitor_at s m)) = None
          \<or> sel_of s m (m_selview (monitor_at s m)) = head (stack_of s m (m_selview (monitor_at s m))))"
  by (auto simp: sel_ok_def SELVIEW_def getview_def sel_of_def stack_of_def)

lemma same_focus_refl: "same_focus s s"
  by (simp add: same_focus_def)

lemma same_focus_trans: "same_focus s t \<Longrightarrow> same_focus t u \<Longrightarrow> same_focus s u"
  by (simp add: same_focus_def)

lemma same_focus_wellformed: "same_focus s s' \<Longrightarrow> wellformed s' = wellformed s"
  by (simp add: same_focus_def wellformed_iff)

lemma same_focus_sel_ok: "same_focus s s' \<Longrightarrow> sel_ok s' m = sel_ok s m"
  by (simp add: same_focus_def sel_ok_iff)

lemma same_focus_attach: "attach s c = Some s' \<Longrightarrow> same_focus s s'"
  by (auto simp: attach_def Let_def same_focus_def stack_of_def sel_of_def setview_def getview_def
        nth_list_update split: bind_splits if_splits)

lemma same_focus_detach: "detach s c = Some s' \<Longrightarrow> same_focus s s'"
  by (auto simp: detach_def Let_def same_focus_def stack_of_def sel_of_def setview_def getview_def
        nth_list_update split: bind_splits if_splits)

lemma same_focus_arranges: "arranges cfg s s' \<Longrightarrow> same_focus s s'"
proof -
  assume a: "arranges cfg s s'"
  note e = arranges_same [OF a]
  have m: "m_views (monitor_at s' m) = m_views (monitor_at s m)
         \<and> m_selview (monitor_at s' m) = m_selview (monitor_at s m)" for m
  proof -
    from e have "(monitor_at s' m)\<lparr>m_ltsymbol := []\<rparr> = (monitor_at s m)\<lparr>m_ltsymbol := []\<rparr>" by blast
    then have "m_views ((monitor_at s' m)\<lparr>m_ltsymbol := []\<rparr>) = m_views ((monitor_at s m)\<lparr>m_ltsymbol := []\<rparr>)"
      and "m_selview ((monitor_at s' m)\<lparr>m_ltsymbol := []\<rparr>) = m_selview ((monitor_at s m)\<lparr>m_ltsymbol := []\<rparr>)"
      by simp_all
    then show ?thesis by simp
  qed
  have c: "c_mon (client_at s' c) = c_mon (client_at s c) \<and> c_view (client_at s' c) = c_view (client_at s c)" for c
    using frame_client(4,5) [OF arranges_frame [OF a], of c] by simp
  from e m c show ?thesis by (simp add: same_focus_def stack_of_def sel_of_def)
qed

lemma stack_of_setview:
  "i < length (m_views (monitor_at s m)) \<Longrightarrow>
   stack_of (setview s m i v) m' i' = (if m' = m \<and> i' = i then v_stack v else stack_of s m' i')"
  by (simp add: stack_of_def setview_def)

lemma sel_of_setview:
  "i < length (m_views (monitor_at s m)) \<Longrightarrow>
   sel_of (setview s m i v) m' i' = (if m' = m \<and> i' = i then v_sel v else sel_of s m' i')"
  by (simp add: sel_of_def setview_def)

lemma setview_effect:
  "m_selview (monitor_at (setview s m i v) m') = m_selview (monitor_at s m')"
  "length (m_views (monitor_at (setview s m i v) m')) = length (m_views (monitor_at s m'))"
  by (simp_all add: setview_def)

lemma getview_Some:
  "getview mo i = Some v \<longleftrightarrow> i < NUMVIEWS \<and> i < length (m_views mo) \<and> v = m_views mo ! i"
  by (auto simp: getview_def)

lemma detachstack_Some:
  assumes "detachstack s c = Some s'"
  shows "\<exists>v::View. getview (monitor_at s (c_mon (client_at s c))) (c_view (client_at s c)) = Some v
       \<and> c \<in> set (v_stack v)
       \<and> s' = setview s (c_mon (client_at s c)) (c_view (client_at s c))
               (v\<lparr>v_stack := remove1 c (v_stack v),
                   v_sel := (if v_sel v = Some c then head (remove1 c (v_stack v)) else v_sel v)\<rparr>)"
proof -
  from assms obtain v :: View
    where v: "getview (monitor_at s (c_mon (client_at s c))) (c_view (client_at s c)) = Some v"
    by (auto simp: detachstack_def Let_def split: bind_splits)
  with assms have "c \<in> set (v_stack v)"
    by (simp add: detachstack_def Let_def split: if_splits)
  moreover from assms v this have "s' = setview s (c_mon (client_at s c)) (c_view (client_at s c))
               (v\<lparr>v_stack := remove1 c (v_stack v),
                   v_sel := (if v_sel v = Some c then head (remove1 c (v_stack v)) else v_sel v)\<rparr>)"
    by (auto simp: detachstack_def Let_def)
  ultimately show ?thesis using v by blast
qed

lemma detachstack_effect:
  assumes "detachstack s c = Some s'"
  defines "M \<equiv> c_mon (client_at s c)" and "I \<equiv> c_view (client_at s c)"
  shows "client_at s' = client_at s" "mons s' = mons s" "selmon s' = selmon s"
    "\<And>m. m_selview (monitor_at s' m) = m_selview (monitor_at s m)"
    "\<And>m. length (m_views (monitor_at s' m)) = length (m_views (monitor_at s m))"
    "I < NUMVIEWS" "I < length (m_views (monitor_at s M))" "c \<in> set (stack_of s M I)"
    "\<And>m i. stack_of s' m i = (if m = M \<and> i = I then remove1 c (stack_of s M I) else stack_of s m i)"
    "\<And>m i. sel_of s' m i = (if m = M \<and> i = I \<and> sel_of s M I = Some c
                               then head (remove1 c (stack_of s M I)) else sel_of s m i)"
proof -
  from detachstack_Some [OF assms(1)] obtain v :: View
    where v: "getview (monitor_at s M) I = Some v" and c: "c \<in> set (v_stack v)"
      and s': "s' = setview s M I
               (v\<lparr>v_stack := remove1 c (v_stack v),
                   v_sel := (if v_sel v = Some c then head (remove1 c (v_stack v)) else v_sel v)\<rparr>)"
    unfolding M_def I_def by blast
  from v have I: "I < NUMVIEWS" "I < length (m_views (monitor_at s M))" and ve: "v = m_views (monitor_at s M) ! I"
    by (simp_all add: getview_Some)
  from ve have st: "v_stack v = stack_of s M I" and se: "v_sel v = sel_of s M I"
    by (simp_all add: stack_of_def sel_of_def)
  show "client_at s' = client_at s" "mons s' = mons s" "selmon s' = selmon s"
    by (simp_all add: s')
  show "\<And>m. m_selview (monitor_at s' m) = m_selview (monitor_at s m)"
    "\<And>m. length (m_views (monitor_at s' m)) = length (m_views (monitor_at s m))"
    by (simp_all add: s' setview_effect)
  show "I < NUMVIEWS" "I < length (m_views (monitor_at s M))" by (rule I)+
  show "c \<in> set (stack_of s M I)" using c st by simp
  show "\<And>m i. stack_of s' m i = (if m = M \<and> i = I then remove1 c (stack_of s M I) else stack_of s m i)"
    by (simp add: s' stack_of_setview [OF I(2)] st)
  show "\<And>m i. sel_of s' m i = (if m = M \<and> i = I \<and> sel_of s M I = Some c
                               then head (remove1 c (stack_of s M I)) else sel_of s m i)"
    by (simp add: s' sel_of_setview [OF I(2)] st se)
qed

lemma attachstack_effect:
  assumes "attachstack s c = Some s'"
  defines "M \<equiv> c_mon (client_at s c)" and "I \<equiv> c_view (client_at s c)"
  shows "client_at s' = client_at s" "mons s' = mons s" "selmon s' = selmon s"
    "\<And>m. m_selview (monitor_at s' m) = m_selview (monitor_at s m)"
    "\<And>m. length (m_views (monitor_at s' m)) = length (m_views (monitor_at s m))"
    "I < NUMVIEWS" "I < length (m_views (monitor_at s M))"
    "\<And>m i. stack_of s' m i = (if m = M \<and> i = I then c # stack_of s M I else stack_of s m i)"
    "\<And>m i. sel_of s' m i = sel_of s m i"
proof -
  from assms(1) obtain v :: View
    where v: "getview (monitor_at s M) I = Some v"
      and s': "s' = setview s M I (v\<lparr>v_stack := c # v_stack v\<rparr>)"
    unfolding M_def I_def by (auto simp: attachstack_def Let_def split: bind_splits)
  from v have I: "I < NUMVIEWS" "I < length (m_views (monitor_at s M))" and ve: "v = m_views (monitor_at s M) ! I"
    by (simp_all add: getview_Some)
  from ve have st: "v_stack v = stack_of s M I" and se: "v_sel v = sel_of s M I"
    by (simp_all add: stack_of_def sel_of_def)
  show "client_at s' = client_at s" "mons s' = mons s" "selmon s' = selmon s"
    by (simp_all add: s')
  show "\<And>m. m_selview (monitor_at s' m) = m_selview (monitor_at s m)"
    "\<And>m. length (m_views (monitor_at s' m)) = length (m_views (monitor_at s m))"
    by (simp_all add: s' setview_effect)
  show "I < NUMVIEWS" "I < length (m_views (monitor_at s M))" by (rule I)+
  show "\<And>m i. stack_of s' m i = (if m = M \<and> i = I then c # stack_of s M I else stack_of s m i)"
    by (simp add: s' stack_of_setview [OF I(2)] st)
  show "\<And>m i. sel_of s' m i = sel_of s m i"
    using se by (auto simp: s' sel_of_setview [OF I(2)])
qed

lemma setclient_effect:
  "mons (setclient s c cl) = mons s" "selmon (setclient s c cl) = selmon s"
  "m_selview (monitor_at (setclient s c cl) m) = m_selview (monitor_at s m)"
  "length (m_views (monitor_at (setclient s c cl) m)) = length (m_views (monitor_at s m))"
  "stack_of (setclient s c cl) m i = stack_of s m i"
  "sel_of (setclient s c cl) m i = sel_of s m i"
  by (simp_all add: stack_of_def sel_of_def)

lemma unstacked_iff:
  "unstacked s c \<longleftrightarrow> (\<forall>m\<in>set (mons s). \<forall>i<NUMVIEWS. c \<notin> set (stack_of s m i))"
  by (auto simp: unstacked_def list_all_iff)

lemma wellformedI:
  assumes "selmon s \<in> set (mons s)"
    and "\<And>m. m \<in> set (mons s) \<Longrightarrow> length (m_views (monitor_at s m)) = NUMVIEWS"
    and "\<And>m. m \<in> set (mons s) \<Longrightarrow> m_selview (monitor_at s m) < NUMVIEWS"
    and "\<And>m i. m \<in> set (mons s) \<Longrightarrow> i < NUMVIEWS \<Longrightarrow> distinct (stack_of s m i)"
    and "\<And>m i d. m \<in> set (mons s) \<Longrightarrow> i < NUMVIEWS \<Longrightarrow> d \<in> set (stack_of s m i)
           \<Longrightarrow> c_mon (client_at s d) = m \<and> c_view (client_at s d) = i"
  shows "wellformed s"
  unfolding wellformed_iff using assms by blast

lemma wellformedD:
  assumes "wellformed s"
  shows "selmon s \<in> set (mons s)"
    and "\<And>m. m \<in> set (mons s) \<Longrightarrow> length (m_views (monitor_at s m)) = NUMVIEWS"
    and "\<And>m. m \<in> set (mons s) \<Longrightarrow> m_selview (monitor_at s m) < NUMVIEWS"
    and "\<And>m i. m \<in> set (mons s) \<Longrightarrow> i < NUMVIEWS \<Longrightarrow> distinct (stack_of s m i)"
    and "\<And>m i d. m \<in> set (mons s) \<Longrightarrow> i < NUMVIEWS \<Longrightarrow> d \<in> set (stack_of s m i)
           \<Longrightarrow> c_mon (client_at s d) = m \<and> c_view (client_at s d) = i"
  using assms unfolding wellformed_iff by blast+

lemma wellformed_detachstack:
  assumes w: "wellformed s" and d: "detachstack s c = Some s'"
  shows "wellformed s'" "unstacked s' c"
proof -
  note e = detachstack_effect [OF d]
  note D = wellformedD [OF w]
  have sub: "set (stack_of s' m i) \<subseteq> set (stack_of s m i)" for m i
    using set_remove1_subset [of c "stack_of s (c_mon (client_at s c)) (c_view (client_at s c))"]
    by (auto simp: e(9))
  have dist: "distinct (stack_of s' m i)" if "m \<in> set (mons s)" "i < NUMVIEWS" for m i
  proof (cases "m = c_mon (client_at s c) \<and> i = c_view (client_at s c)")
    case True
    with D(4) [OF that] have "distinct (remove1 c (stack_of s (c_mon (client_at s c)) (c_view (client_at s c))))"
      by simp
    with True show ?thesis by (simp add: e(9))
  next
    case False
    with D(4) [OF that] show ?thesis by (auto simp: e(9))
  qed
  show "wellformed s'"
  proof (rule wellformedI)
    show "selmon s' \<in> set (mons s')" using D(1) by (simp add: e)
    show "length (m_views (monitor_at s' m)) = NUMVIEWS" if "m \<in> set (mons s')" for m
      using D(2) that by (simp add: e)
    show "m_selview (monitor_at s' m) < NUMVIEWS" if "m \<in> set (mons s')" for m
      using D(3) that by (simp add: e)
    show "distinct (stack_of s' m i)" if "m \<in> set (mons s')" "i < NUMVIEWS" for m i
      using dist that by (simp add: e(2))
    show "c_mon (client_at s' d) = m \<and> c_view (client_at s' d) = i"
      if "m \<in> set (mons s')" "i < NUMVIEWS" "d \<in> set (stack_of s' m i)" for m i d
    proof -
      from that(3) sub have "d \<in> set (stack_of s m i)" by blast
      with D(5) that(1,2) show ?thesis by (simp add: e(1,2))
    qed
  qed
  show "unstacked s' c"
    unfolding unstacked_iff
  proof (intro ballI allI impI)
    fix m i assume m: "m \<in> set (mons s')" and i: "i < NUMVIEWS"
    show "c \<notin> set (stack_of s' m i)"
    proof
      assume c: "c \<in> set (stack_of s' m i)"
      with sub have c0: "c \<in> set (stack_of s m i)" by blast
      from m have m0: "m \<in> set (mons s)" by (simp add: e(2))
      from D(5) [OF m0 i c0] have mi: "m = c_mon (client_at s c)" "i = c_view (client_at s c)"
        by simp_all
      from D(4) [OF m0 i] have "distinct (stack_of s m i)" .
      then have "c \<notin> set (remove1 c (stack_of s m i))" by simp
      moreover have "stack_of s' m i = remove1 c (stack_of s m i)"
        using mi by (simp add: e(9))
      ultimately show False using c by simp
    qed
  qed
qed

lemma wellformed_setclient:
  assumes w: "wellformed s" and u: "unstacked s c"
  shows "wellformed (setclient s c cl)" "unstacked (setclient s c cl) c"
proof -
  note D = wellformedD [OF w]
  show "wellformed (setclient s c cl)"
  proof (rule wellformedI)
    show "selmon (setclient s c cl) \<in> set (mons (setclient s c cl))" using D(1) by simp
    show "length (m_views (monitor_at (setclient s c cl) m)) = NUMVIEWS"
      if "m \<in> set (mons (setclient s c cl))" for m
      using D(2) that by simp
    show "m_selview (monitor_at (setclient s c cl) m) < NUMVIEWS"
      if "m \<in> set (mons (setclient s c cl))" for m
      using D(3) that by simp
    show "distinct (stack_of (setclient s c cl) m i)"
      if "m \<in> set (mons (setclient s c cl))" "i < NUMVIEWS" for m i
      using D(4) that by (simp add: setclient_effect)
    show "c_mon (client_at (setclient s c cl) d) = m \<and> c_view (client_at (setclient s c cl) d) = i"
      if "m \<in> set (mons (setclient s c cl))" "i < NUMVIEWS" "d \<in> set (stack_of (setclient s c cl) m i)"
      for m i d
    proof -
      from that have m: "m \<in> set (mons s)" and d: "d \<in> set (stack_of s m i)"
        by (simp_all add: setclient_effect)
      with u that(2) have "d \<noteq> c" by (auto simp: unstacked_iff)
      with D(5) [OF m that(2) d] show ?thesis by simp
    qed
  qed
  from u show "unstacked (setclient s c cl) c"
    by (simp add: unstacked_iff setclient_effect)
qed

lemma wellformed_attachstack:
  assumes w: "wellformed s" and u: "unstacked s c" and a: "attachstack s c = Some s'"
  shows "wellformed s'"
proof -
  note e = attachstack_effect [OF a]
  note D = wellformedD [OF w]
  show ?thesis
  proof (rule wellformedI)
    show "selmon s' \<in> set (mons s')" using D(1) by (simp add: e)
    show "length (m_views (monitor_at s' m)) = NUMVIEWS" if "m \<in> set (mons s')" for m
      using D(2) that by (simp add: e)
    show "m_selview (monitor_at s' m) < NUMVIEWS" if "m \<in> set (mons s')" for m
      using D(3) that by (simp add: e)
    show "distinct (stack_of s' m i)" if "m \<in> set (mons s')" "i < NUMVIEWS" for m i
    proof -
      from that have m: "m \<in> set (mons s)" by (simp add: e(2))
      from u m that(2) have "c \<notin> set (stack_of s m i)" by (simp add: unstacked_iff)
      with D(4) [OF m that(2)] show ?thesis by (auto simp: e(8))
    qed
    show "c_mon (client_at s' d) = m \<and> c_view (client_at s' d) = i"
      if "m \<in> set (mons s')" "i < NUMVIEWS" "d \<in> set (stack_of s' m i)" for m i d
    proof -
      from that have m: "m \<in> set (mons s)" by (simp add: e(2))
      show ?thesis
      proof (cases "d \<in> set (stack_of s m i)")
        case True
        with D(5) [OF m that(2)] show ?thesis by (simp add: e(1))
      next
        case False
        with that(3) have "d = c \<and> m = c_mon (client_at s c) \<and> i = c_view (client_at s c)"
          by (auto simp: e(8) split: if_splits)
        then show ?thesis by (simp add: e(1))
      qed
    qed
  qed
qed

lemma clearurgent_effect:
  "mons (clearurgent s c) = mons s" "selmon (clearurgent s c) = selmon s"
  "monitor_at (clearurgent s c) = monitor_at s"
  "stack_of (clearurgent s c) m i = stack_of s m i"
  "sel_of (clearurgent s c) m i = sel_of s m i"
  "c_mon (client_at (clearurgent s c) d) = c_mon (client_at s d)"
  "c_view (client_at (clearurgent s c) d) = c_view (client_at s d)"
  by (simp_all add: clearurgent_def stack_of_def sel_of_def setclient_def)

lemma SELVIEW_Some:
  "SELVIEW s m = Some v \<longleftrightarrow>
     m_selview (monitor_at s m) < NUMVIEWS \<and> m_selview (monitor_at s m) < length (m_views (monitor_at s m))
     \<and> v = m_views (monitor_at s m) ! m_selview (monitor_at s m)"
  by (simp add: SELVIEW_def getview_Some)

lemma focus_None_cases:
  assumes "focus s None = Some s'"
  shows "\<exists>v::View. SELVIEW s (selmon s) = Some v \<and>
     (case v_stack v of
        [] \<Rightarrow> s' = setview s (selmon s) (m_selview (monitor_at s (selmon s))) (v\<lparr>v_sel := None\<rparr>)
      | c # cs \<Rightarrow>
          (\<exists>s1 s2 s3 (v3::View).
              s1 = (if c_mon (client_at s c) \<noteq> selmon s then s\<lparr>selmon := c_mon (client_at s c)\<rparr> else s)
            \<and> s2 = (if c_isurgent (client_at s1 c) then clearurgent s1 c else s1)
            \<and> detachstack s2 c = Some s3
            \<and> (\<exists>s4. attachstack s3 c = Some s4 \<and> SELVIEW s4 (selmon s4) = Some v3
                 \<and> s' = setview s4 (selmon s4) (m_selview (monitor_at s4 (selmon s4))) (v3\<lparr>v_sel := Some c\<rparr>))))"
proof -
  from assms obtain v :: View where v: "SELVIEW s (selmon s) = Some v"
    by (auto simp: focus_def split: bind_splits)
  show ?thesis
  proof (cases "v_stack v")
    case Nil
    with assms v show ?thesis
      by (simp add: focus_def head_def Let_def)
  next
    case (Cons c cs)
    with assms v show ?thesis
      by (auto simp: focus_def head_def Let_def split: bind_splits)
  qed
qed

lemma refocused_wellformed: "refocused s s' \<Longrightarrow> wellformed s' = wellformed s"
  by (simp add: refocused_def wellformed_iff)

lemma refocused_sel_ok_selmon:
  "refocused s s' \<Longrightarrow> SELVIEW s (selmon s) \<noteq> None \<Longrightarrow> sel_ok s' (selmon s)"
  by (auto simp: refocused_def sel_ok_iff SELVIEW_Some)

lemma refocused_sel_ok_other:
  "refocused s s' \<Longrightarrow> m \<noteq> selmon s \<Longrightarrow> sel_ok s' m = sel_ok s m"
  by (simp add: refocused_def sel_ok_iff)

lemma refocused_same_focus: "refocused s t \<Longrightarrow> same_focus t u \<Longrightarrow> refocused s u"
  by (simp add: refocused_def same_focus_def)

lemma same_focus_refocused: "same_focus s t \<Longrightarrow> refocused t u \<Longrightarrow> refocused s u"
  by (simp add: refocused_def same_focus_def)

lemma refocused_trans: "refocused s t \<Longrightarrow> refocused t u \<Longrightarrow> refocused s u"
  by (simp add: refocused_def)

lemma refocused_focus:
  assumes w: "wellformed s" and f: "focus s None = Some s'"
  shows "refocused s s'"
proof -
  let ?S = "selmon s"
  let ?I = "m_selview (monitor_at s (selmon s))"
  from focus_None_cases [OF f] obtain v :: View where v: "SELVIEW s ?S = Some v"
    and r: "case v_stack v of
        [] \<Rightarrow> s' = setview s ?S ?I (v\<lparr>v_sel := None\<rparr>)
      | c # cs \<Rightarrow>
          (\<exists>s1 s2 s3 (v3::View).
              s1 = (if c_mon (client_at s c) \<noteq> selmon s then s\<lparr>selmon := c_mon (client_at s c)\<rparr> else s)
            \<and> s2 = (if c_isurgent (client_at s1 c) then clearurgent s1 c else s1)
            \<and> detachstack s2 c = Some s3
            \<and> (\<exists>s4. attachstack s3 c = Some s4 \<and> SELVIEW s4 (selmon s4) = Some v3
                 \<and> s' = setview s4 (selmon s4) (m_selview (monitor_at s4 (selmon s4))) (v3\<lparr>v_sel := Some c\<rparr>)))"
    by blast
  from v have I: "?I < NUMVIEWS" "?I < length (m_views (monitor_at s ?S))"
    and ve: "v = m_views (monitor_at s ?S) ! ?I"
    by (simp_all add: SELVIEW_Some)
  from ve have st: "v_stack v = stack_of s ?S ?I" by (simp add: stack_of_def)
  note D = wellformedD [OF w]
  show ?thesis
  proof (cases "v_stack v")
    case Nil
    with r have s': "s' = setview s ?S ?I (v\<lparr>v_sel := None\<rparr>)" by simp
    from Nil st have "stack_of s ?S ?I = []" by simp
    then show ?thesis
      unfolding refocused_def
      by (auto simp: s' setview_effect stack_of_setview [OF I(2)] sel_of_setview [OF I(2)] st [symmetric] head_def)
  next
    case (Cons c cs)
    with st have stk: "stack_of s ?S ?I = c # cs" by simp
    then have "c \<in> set (stack_of s ?S ?I)" by simp
    from D(5) [OF D(1) I(1) this]
    have cm: "c_mon (client_at s c) = ?S" and cv: "c_view (client_at s c) = ?I" by simp_all
    from r Cons cm obtain s2 s3 s4 and v3 :: View where
      s2: "s2 = (if c_isurgent (client_at s c) then clearurgent s c else s)"
      and s3: "detachstack s2 c = Some s3"
      and s4: "attachstack s3 c = Some s4"
      and v3: "SELVIEW s4 (selmon s4) = Some v3"
      and s': "s' = setview s4 (selmon s4) (m_selview (monitor_at s4 (selmon s4))) (v3\<lparr>v_sel := Some c\<rparr>)"
      by auto
    have e2: "mons s2 = mons s" "selmon s2 = selmon s" "monitor_at s2 = monitor_at s"
      "\<And>m i. stack_of s2 m i = stack_of s m i" "\<And>m i. sel_of s2 m i = sel_of s m i"
      "\<And>d. c_mon (client_at s2 d) = c_mon (client_at s d)"
      "\<And>d. c_view (client_at s2 d) = c_view (client_at s d)"
      by (simp_all add: s2 clearurgent_effect)
    note e3 = detachstack_effect [OF s3, unfolded e2 cm cv]
    have c3: "c_mon (client_at s3 c) = ?S" "c_view (client_at s3 c) = ?I"
      by (simp_all add: e3(1) e2 cm cv)
    note e4 = attachstack_effect [OF s4, unfolded c3]
    have sel4: "selmon s4 = ?S" by (simp add: e4 e3 e2)
    have sv4: "m_selview (monitor_at s4 m) = m_selview (monitor_at s m)" for m
      by (simp add: e4 e3 e2)
    have len4: "length (m_views (monitor_at s4 m)) = length (m_views (monitor_at s m))" for m
      by (simp add: e4 e3 e2)
    have stk4: "stack_of s4 m i = stack_of s m i" for m i
      by (simp add: e4(8) e3(9) stk)
    have sel_of4: "sel_of s4 m i = sel_of s m i" if "\<not> (m = ?S \<and> i = ?I)" for m i
      using that by (auto simp: e4(9) e3(10) e2)
    have cl4: "c_mon (client_at s4 d) = c_mon (client_at s d) \<and> c_view (client_at s4 d) = c_view (client_at s d)" for d
      by (simp add: e4(1) e3(1) e2)
    have I4: "?I < length (m_views (monitor_at s4 ?S))" using I(2) by (simp add: len4)
    have s'': "s' = setview s4 ?S ?I (v3\<lparr>v_sel := Some c\<rparr>)"
      by (simp add: s' sel4 sv4)
    from v3 have "v3 = m_views (monitor_at s4 ?S) ! ?I"
      by (simp add: SELVIEW_Some sel4 sv4)
    then have v3s: "v_stack v3 = stack_of s4 ?S ?I" by (simp add: stack_of_def)
    show ?thesis
      unfolding refocused_def
    proof (intro conjI allI)
      show "mons s' = mons s" by (simp add: s'' e4 e3 e2)
      show "selmon s' = ?S" by (simp add: s'' sel4)
      show "m_selview (monitor_at s' m) = m_selview (monitor_at s m)" for m
        by (simp add: s'' setview_effect sv4)
      show "length (m_views (monitor_at s' m)) = length (m_views (monitor_at s m))" for m
        by (simp add: s'' setview_effect len4)
      show "c_mon (client_at s' d) = c_mon (client_at s d)" for d
        by (simp add: s'' cl4)
      show "c_view (client_at s' d) = c_view (client_at s d)" for d
        by (simp add: s'' cl4)
      show "stack_of s' m i = stack_of s m i" for m i
        by (simp add: s'' stack_of_setview [OF I4] v3s stk4)
      show "sel_of s' m i = (if m = ?S \<and> i = ?I then head (stack_of s m i) else sel_of s m i)" for m i
        by (auto simp: s'' sel_of_setview [OF I4] stk head_def sel_of4)
    qed
  qed
qed

lemma refocused_arrange:
  assumes w: "wellformed s" and a: "arrange cfg s m0 = Some s'"
  shows "refocused s s'"
proof -
  from arrange_cases [OF a] obtain t u
    where t: "arranges cfg s t" and u: "focus t None = Some u" and s': "arranges cfg u s'"
    by blast
  from t have st: "same_focus s t" by (rule same_focus_arranges)
  with w have "wellformed t" by (simp add: same_focus_wellformed)
  from refocused_focus [OF this u] have "refocused t u" .
  with st have "refocused s u" by (rule same_focus_refocused)
  then show ?thesis using same_focus_arranges [OF s'] by (rule refocused_same_focus)
qed

lemma sel_ok_cong:
  assumes "m_selview (monitor_at s' m) = m_selview (monitor_at s m)"
    "length (m_views (monitor_at s' m)) = length (m_views (monitor_at s m))"
    "\<And>i. stack_of s' m i = stack_of s m i" "\<And>i. sel_of s' m i = sel_of s m i"
  shows "sel_ok s' m = sel_ok s m"
  by (simp add: sel_ok_iff assms)

lemma sel_ok_setclient: "sel_ok (setclient s c cl) m = sel_ok s m"
  by (rule sel_ok_cong) (simp_all add: setclient_effect)

lemma head_remove1: "head xs = Some d \<Longrightarrow> d \<noteq> c \<Longrightarrow> head (remove1 c xs) = Some d"
  by (cases xs) (auto simp: head_def)

lemma sel_ok_detachstack:
  assumes d: "detachstack s c = Some s'" and ok: "sel_ok s m"
  shows "sel_ok s' m"
proof -
  define M where "M = c_mon (client_at s c)"
  define I where "I = c_view (client_at s c)"
  define i where "i = m_selview (monitor_at s m)"
  note e = detachstack_effect [OF d, folded M_def I_def]
  from ok have i: "i < NUMVIEWS" "i < length (m_views (monitor_at s m))"
    and s: "sel_of s m i = None \<or> sel_of s m i = head (stack_of s m i)"
    by (simp_all add: sel_ok_iff i_def)
  have sv: "m_selview (monitor_at s' m) = i" and len: "length (m_views (monitor_at s' m)) = length (m_views (monitor_at s m))"
    by (simp_all add: e i_def)
  have "sel_of s' m i = None \<or> sel_of s' m i = head (stack_of s' m i)"
  proof (cases "m = M \<and> i = I")
    case False
    then have "stack_of s' m i = stack_of s m i" "sel_of s' m i = sel_of s m i"
      using e(9) [of m i] e(10) [of m i] by auto
    with s show ?thesis by simp
  next
    case True
    then have st: "stack_of s' m i = remove1 c (stack_of s m i)"
      using e(9) [of m i] by simp
    show ?thesis
    proof (cases "sel_of s m i = Some c")
      case c: True
      with True have "sel_of s' m i = head (remove1 c (stack_of s m i))"
        using e(10) [of m i] by simp
      with st show ?thesis by simp
    next
      case False
      with True have se: "sel_of s' m i = sel_of s m i"
        using e(10) [of m i] by simp
      show ?thesis
      proof (cases "sel_of s m i")
        case None
        with se show ?thesis by simp
      next
        case (Some d)
        with False have "d \<noteq> c" by simp
        moreover from s Some have "head (stack_of s m i) = Some d" by simp
        ultimately have "head (remove1 c (stack_of s m i)) = Some d" by (rule head_remove1 [rotated])
        with se st Some show ?thesis by simp
      qed
    qed
  qed
  with i show ?thesis unfolding sel_ok_iff sv len by simp
qed

lemma sel_ok_attachstack_other:
  assumes a: "attachstack s c = Some s'" and m: "m \<noteq> c_mon (client_at s c)"
  shows "sel_ok s' m = sel_ok s m"
  using m by (intro sel_ok_cong) (simp_all add: attachstack_effect [OF a])

lemma sel_ok_detachstack_other:
  assumes d: "detachstack s c = Some s'" and m: "m \<noteq> c_mon (client_at s c)"
  shows "sel_ok s' m = sel_ok s m"
  using m by (intro sel_ok_cong) (simp_all add: detachstack_effect [OF d])

lemma same_focus_unstacked: "same_focus s s' \<Longrightarrow> unstacked s' c = unstacked s c"
  by (simp add: same_focus_def unstacked_iff)

lemma same_focus_client:
  "same_focus s s' \<Longrightarrow> c_mon (client_at s' c) = c_mon (client_at s c)"
  "same_focus s s' \<Longrightarrow> c_view (client_at s' c) = c_view (client_at s c)"
  "same_focus s s' \<Longrightarrow> selmon s' = selmon s"
  "same_focus s s' \<Longrightarrow> mons s' = mons s"
  "same_focus s s' \<Longrightarrow> m_selview (monitor_at s' m) = m_selview (monitor_at s m)"
  "same_focus s s' \<Longrightarrow> length (m_views (monitor_at s' m)) = length (m_views (monitor_at s m))"
  "same_focus s s' \<Longrightarrow> stack_of s' m i = stack_of s m i"
  "same_focus s s' \<Longrightarrow> sel_of s' m i = sel_of s m i"
  by (simp_all add: same_focus_def)

lemma refocused_client:
  "refocused s s' \<Longrightarrow> c_mon (client_at s' c) = c_mon (client_at s c)"
  "refocused s s' \<Longrightarrow> c_view (client_at s' c) = c_view (client_at s c)"
  "refocused s s' \<Longrightarrow> selmon s' = selmon s"
  "refocused s s' \<Longrightarrow> mons s' = mons s"
  "refocused s s' \<Longrightarrow> m_selview (monitor_at s' m) = m_selview (monitor_at s m)"
  "refocused s s' \<Longrightarrow> length (m_views (monitor_at s' m)) = length (m_views (monitor_at s m))"
  "refocused s s' \<Longrightarrow> stack_of s' m i = stack_of s m i"
  by (simp_all add: refocused_def)

lemma refocused_inv:
  assumes r: "refocused s s'" and w: "wellformed s" and v: "SELVIEW s (selmon s) \<noteq> None"
  shows "wellformed s'" "sel_ok s' (selmon s')" "sel_ok s m \<Longrightarrow> sel_ok s' m"
proof -
  show "wellformed s'" using r w by (simp add: refocused_wellformed)
  show 1: "sel_ok s' (selmon s')"
    using refocused_sel_ok_selmon [OF r v] refocused_client(3) [OF r] by simp
  show "sel_ok s' m" if "sel_ok s m"
  proof (cases "m = selmon s")
    case True
    with 1 refocused_client(3) [OF r] show ?thesis by simp
  next
    case False
    with that refocused_sel_ok_other [OF r] show ?thesis by simp
  qed
qed

lemma focus_SELVIEW: "focus s c0 = Some s' \<Longrightarrow> SELVIEW s (selmon s) \<noteq> None"
  by (auto simp: focus_def split: bind_splits)

lemma SELVIEW_defined:
  "SELVIEW s m \<noteq> None \<longleftrightarrow>
     m_selview (monitor_at s m) < NUMVIEWS \<and> m_selview (monitor_at s m) < length (m_views (monitor_at s m))"
  by (simp add: SELVIEW_def getview_def)

lemma arrange_SELVIEW:
  assumes a: "arrange cfg s m0 = Some s'"
  shows "SELVIEW s (selmon s) \<noteq> None"
proof -
  from arrange_cases [OF a] obtain t u
    where t: "arranges cfg s t" and u: "focus t None = Some u"
    by blast
  note e = same_focus_client [OF same_focus_arranges [OF t]]
  from focus_SELVIEW [OF u] have "SELVIEW t (selmon t) \<noteq> None" .
  then show ?thesis
    unfolding SELVIEW_defined e .
qed

lemma inv_focus:
  assumes "wellformed s" "focus s None = Some s'"
  shows "wellformed s'" "sel_ok s' (selmon s')" "sel_ok s m \<Longrightarrow> sel_ok s' m" "selmon s' = selmon s"
    "mons s' = mons s"
  using refocused_inv [OF refocused_focus [OF assms] assms(1) focus_SELVIEW [OF assms(2)]]
    refocused_client(3,4) [OF refocused_focus [OF assms]]
  by blast+

lemma inv_arrange:
  assumes "wellformed s" "arrange cfg s m0 = Some s'"
  shows "wellformed s'" "sel_ok s' (selmon s')" "sel_ok s m \<Longrightarrow> sel_ok s' m" "selmon s' = selmon s"
    "mons s' = mons s"
  using refocused_inv [OF refocused_arrange [OF assms] assms(1) arrange_SELVIEW [OF assms(2)]]
    refocused_client(3,4) [OF refocused_arrange [OF assms]]
  by blast+

lemma tag_cases:
  assumes "tag cfg s ui = Some s'"
  shows "\<exists>v::View. SELVIEW s (selmon s) = Some v \<and>
     ((v_sel v = None \<and> s' = s) \<or>
      (\<exists>c s1 s2 s4 s5. v_sel v = Some c \<and> detach s c = Some s1 \<and> detachstack s1 c = Some s2
          \<and> attach (setclient s2 c ((client_at s2 c)\<lparr>c_view := ui\<rparr>)) c = Some s4
          \<and> attachstack s4 c = Some s5 \<and> arrange cfg s5 (Some (selmon s5)) = Some s'))"
proof -
  from assms obtain v :: View where v: "SELVIEW s (selmon s) = Some v"
    by (auto simp: tag_def split: bind_splits)
  show ?thesis
  proof (cases "v_sel v")
    case None
    with assms v show ?thesis by (simp add: tag_def)
  next
    case (Some c)
    with assms v show ?thesis
      by (simp add: tag_def Let_def bind_eq_Some_conv)
  qed
qed

lemma sel_in_stack:
  assumes ok: "sel_ok s m" and v: "SELVIEW s m = Some v" and c: "v_sel v = Some c"
  shows "c \<in> set (stack_of s m (m_selview (monitor_at s m)))"
proof -
  from v have ve: "v = m_views (monitor_at s m) ! m_selview (monitor_at s m)"
    by (simp add: SELVIEW_Some)
  with c have "sel_of s m (m_selview (monitor_at s m)) = Some c" by (simp add: sel_of_def)
  with ok have "head (stack_of s m (m_selview (monitor_at s m))) = Some c"
    by (simp add: sel_ok_iff)
  then show ?thesis
    by (cases "stack_of s m (m_selview (monitor_at s m))") (simp_all add: head_def)
qed

lemma inv_tag:
  assumes w: "wellformed s" and ok: "sel_ok s (selmon s)" and t: "tag cfg s ui = Some s'"
  shows "wellformed s'" "sel_ok s' (selmon s')" "sel_ok s m \<Longrightarrow> sel_ok s' m" "selmon s' = selmon s"
    "mons s' = mons s"
proof -
  from tag_cases [OF t] obtain v :: View where v: "SELVIEW s (selmon s) = Some v"
    and r: "(v_sel v = None \<and> s' = s) \<or>
      (\<exists>c s1 s2 s4 s5. v_sel v = Some c \<and> detach s c = Some s1 \<and> detachstack s1 c = Some s2
          \<and> attach (setclient s2 c ((client_at s2 c)\<lparr>c_view := ui\<rparr>)) c = Some s4
          \<and> attachstack s4 c = Some s5 \<and> arrange cfg s5 (Some (selmon s5)) = Some s')"
    by blast
  have "wellformed s' \<and> sel_ok s' (selmon s') \<and> (sel_ok s m \<longrightarrow> sel_ok s' m) \<and> selmon s' = selmon s
        \<and> mons s' = mons s"
  proof (cases "v_sel v")
    case None
    with r have "s' = s" by auto
    with w ok show ?thesis by simp
  next
    case (Some c)
    with r obtain s1 s2 s4 s5 where s1: "detach s c = Some s1" and s2: "detachstack s1 c = Some s2"
      and s4: "attach (setclient s2 c ((client_at s2 c)\<lparr>c_view := ui\<rparr>)) c = Some s4"
      and s5: "attachstack s4 c = Some s5" and s': "arrange cfg s5 (Some (selmon s5)) = Some s'"
      by auto
    define s3 where "s3 = setclient s2 c ((client_at s2 c)\<lparr>c_view := ui\<rparr>)"
    note D = wellformedD [OF w]
    from sel_in_stack [OF ok v Some] D(5) [OF D(1) D(3) [OF D(1)]]
    have cm: "c_mon (client_at s c) = selmon s" by blast
    note f1 = same_focus_detach [OF s1]
    note e1 = same_focus_client [OF f1]
    have w1: "wellformed s1" using w f1 by (simp add: same_focus_wellformed)
    note e2 = detachstack_effect [OF s2]
    have w2: "wellformed s2" and u2: "unstacked s2 c"
      using wellformed_detachstack [OF w1 s2] by blast+
    have w3: "wellformed s3" and u3: "unstacked s3 c"
      unfolding s3_def using wellformed_setclient [OF w2 u2] by blast+
    note f4 = same_focus_attach [OF s4 [folded s3_def]]
    note e4 = same_focus_client [OF f4]
    have w4: "wellformed s4" using w3 f4 by (simp add: same_focus_wellformed)
    have u4: "unstacked s4 c" using u3 f4 by (simp add: same_focus_unstacked)
    have w5: "wellformed s5" using wellformed_attachstack [OF w4 u4 s5] .
    note i = inv_arrange [OF w5 s']
    have cm1: "c_mon (client_at s1 c) = selmon s" by (simp add: e1 cm)
    have cm4: "c_mon (client_at s4 c) = selmon s"
      by (simp add: e4 s3_def e2(1) cm1)
    note e5 = attachstack_effect [OF s5]
    have sel5: "selmon s5 = selmon s" "mons s5 = mons s"
      by (simp_all add: e5 e4 s3_def e2 e1)
    have other: "sel_ok s5 m = sel_ok s m" if "m \<noteq> selmon s"
    proof -
      have "sel_ok s5 m = sel_ok s4 m"
        using sel_ok_attachstack_other [OF s5] that cm4 by simp
      also have "\<dots> = sel_ok s3 m" using f4 by (rule same_focus_sel_ok)
      also have "\<dots> = sel_ok s2 m" by (simp add: s3_def sel_ok_setclient)
      also have "\<dots> = sel_ok s1 m"
        using sel_ok_detachstack_other [OF s2] that cm1 by simp
      also have "\<dots> = sel_ok s m" using f1 by (rule same_focus_sel_ok)
      finally show ?thesis .
    qed
    have "sel_ok s' m" if "sel_ok s m"
    proof (cases "m = selmon s")
      case True
      with i(2) i(4) sel5 show ?thesis by simp
    next
      case False
      with other that have "sel_ok s5 m" by simp
      then show ?thesis by (rule i(3))
    qed
    with i sel5 show ?thesis by simp
  qed
  then show "wellformed s'" "sel_ok s' (selmon s')" "sel_ok s m \<Longrightarrow> sel_ok s' m" "selmon s' = selmon s"
    "mons s' = mons s"
    by blast+
qed

lemma inv_unmanage:
  assumes w: "wellformed s" and u: "unmanage cfg s c destroyed = Some s'"
  shows "wellformed s'" "sel_ok s' (selmon s')" "sel_ok s m \<Longrightarrow> sel_ok s' m" "selmon s' = selmon s"
    "mons s' = mons s"
proof -
  from u obtain s1 s2 s3 where s1: "detach s c = Some s1" and s2: "detachstack s1 c = Some s2"
    and s3: "focus s2 None = Some s3" and s': "arrange cfg s3 (Some (c_mon (client_at s c))) = Some s'"
    by (auto simp: unmanage_def Let_def split: bind_splits)
  note f1 = same_focus_detach [OF s1]
  have w1: "wellformed s1" using w f1 by (simp add: same_focus_wellformed)
  have w2: "wellformed s2" using wellformed_detachstack [OF w1 s2] by blast
  note i3 = inv_focus [OF w2 s3]
  note i = inv_arrange [OF i3(1) s']
  note e2 = detachstack_effect [OF s2]
  show "wellformed s'" by (rule i(1))
  show "sel_ok s' (selmon s')" by (rule i(2))
  show "sel_ok s' m" if "sel_ok s m"
  proof -
    from that f1 have "sel_ok s1 m" by (simp add: same_focus_sel_ok)
    then have "sel_ok s2 m" using s2 by (rule sel_ok_detachstack [rotated])
    then have "sel_ok s3 m" by (rule i3(3))
    then show ?thesis by (rule i(3))
  qed
  show "selmon s' = selmon s" by (simp add: i(4) i3(4) e2 same_focus_client [OF f1])
  show "mons s' = mons s" by (simp add: i(5) i3(5) e2 same_focus_client [OF f1])
qed

lemma sendmon_cases:
  assumes "sendmon cfg s c m = Some s'" "c_mon (client_at s c) \<noteq> m"
  shows "\<exists>s1 s2 s4 s5 s6. detach s c = Some s1 \<and> detachstack s1 c = Some s2
          \<and> attach (setclient (setclient s2 c ((client_at s2 c)\<lparr>c_mon := m\<rparr>)) c
                       ((client_at s2 c)\<lparr>c_mon := m, c_view := m_selview (monitor_at s2 m)\<rparr>)) c = Some s4
          \<and> attachstack s4 c = Some s5 \<and> focus s5 None = Some s6 \<and> arrange cfg s6 None = Some s'"
  using assms by (simp add: sendmon_def Let_def bind_eq_Some_conv)

lemma inv_sendmon:
  assumes w: "wellformed s" and sm: "sendmon cfg s c m = Some s'" and ne: "c_mon (client_at s c) \<noteq> m"
  shows "wellformed s'" "sel_ok s' (selmon s')" "m' \<noteq> m \<Longrightarrow> sel_ok s m' \<Longrightarrow> sel_ok s' m'"
    "selmon s' = selmon s" "mons s' = mons s"
    "m \<noteq> selmon s \<Longrightarrow> m \<in> set (mons s) \<Longrightarrow> sel_ok s m
       \<Longrightarrow> sel_of s m (m_selview (monitor_at s m)) \<noteq> None \<Longrightarrow> \<not> sel_ok s' m"
proof -
  from sendmon_cases [OF sm ne] obtain s1 s2 s4 s5 s6
    where s1: "detach s c = Some s1" and s2: "detachstack s1 c = Some s2"
      and s4: "attach (setclient (setclient s2 c ((client_at s2 c)\<lparr>c_mon := m\<rparr>)) c
                       ((client_at s2 c)\<lparr>c_mon := m, c_view := m_selview (monitor_at s2 m)\<rparr>)) c = Some s4"
      and s5: "attachstack s4 c = Some s5" and s6: "focus s5 None = Some s6"
      and s': "arrange cfg s6 None = Some s'"
    by blast
  define cl where "cl = (client_at s2 c)\<lparr>c_mon := m, c_view := m_selview (monitor_at s2 m)\<rparr>"
  define s3 where "s3 = setclient (setclient s2 c ((client_at s2 c)\<lparr>c_mon := m\<rparr>)) c cl"
  note f1 = same_focus_detach [OF s1]
  note e1 = same_focus_client [OF f1]
  have w1: "wellformed s1" using w f1 by (simp add: same_focus_wellformed)
  note e2 = detachstack_effect [OF s2]
  have w2: "wellformed s2" and u2: "unstacked s2 c"
    using wellformed_detachstack [OF w1 s2] by blast+
  have w3: "wellformed s3" and u3: "unstacked s3 c"
    unfolding s3_def
    using wellformed_setclient [OF wellformed_setclient [OF w2 u2]] by blast+
  note f4 = same_focus_attach [OF s4 [folded cl_def, folded s3_def]]
  note e4 = same_focus_client [OF f4]
  have w4: "wellformed s4" using w3 f4 by (simp add: same_focus_wellformed)
  have u4: "unstacked s4 c" using u3 f4 by (simp add: same_focus_unstacked)
  have w5: "wellformed s5" using wellformed_attachstack [OF w4 u4 s5] .
  note i6 = inv_focus [OF w5 s6]
  note i = inv_arrange [OF i6(1) s']
  note e5 = attachstack_effect [OF s5]
  have cm1: "c_mon (client_at s1 c) = c_mon (client_at s c)" by (simp add: e1)
  have cl3: "client_at s3 c = cl" by (simp add: s3_def)
  have cm4: "c_mon (client_at s4 c) = m" by (simp add: e4 cl3 cl_def)
  have cv4: "c_view (client_at s4 c) = m_selview (monitor_at s m)"
    by (simp add: e4 cl3 cl_def e2 e1)
  have sel5: "selmon s5 = selmon s" "mons s5 = mons s"
    by (simp_all add: e5 e4 s3_def e2 e1)
  show "wellformed s'" by (rule i(1))
  show "sel_ok s' (selmon s')" by (rule i(2))
  show "selmon s' = selmon s" by (simp add: i(4) i6(4) sel5)
  show "mons s' = mons s" by (simp add: i(5) i6(5) sel5)
  show "sel_ok s' m'" if "m' \<noteq> m" "sel_ok s m'"
  proof -
    from that(2) f1 have "sel_ok s1 m'" by (simp add: same_focus_sel_ok)
    then have "sel_ok s2 m'" using s2 by (rule sel_ok_detachstack [rotated])
    then have "sel_ok s3 m'" by (simp add: s3_def sel_ok_setclient)
    then have "sel_ok s4 m'" using f4 by (simp add: same_focus_sel_ok)
    then have "sel_ok s5 m'" using sel_ok_attachstack_other [OF s5] that(1) cm4 by simp
    then have "sel_ok s6 m'" by (rule i6(3))
    then show ?thesis by (rule i(3))
  qed
  show "\<not> sel_ok s' m"
    if m: "m \<noteq> selmon s" "m \<in> set (mons s)" and ok: "sel_ok s m"
      and se: "sel_of s m (m_selview (monitor_at s m)) \<noteq> None"
  proof -
    define i where "i = m_selview (monitor_at s m)"
    note D = wellformedD [OF w]
    from se obtain d where d: "sel_of s m i = Some d" by (auto simp: i_def)
    with ok have hd: "head (stack_of s m i) = Some d" by (simp add: sel_ok_iff i_def)
    then have "d \<in> set (stack_of s m i)" by (cases "stack_of s m i") (simp_all add: head_def)
    from D(5) [OF m(2) D(3) [OF m(2), folded i_def] this] ne have dc: "d \<noteq> c" by auto
    have "sel_of s5 m i = sel_of s4 m i" by (simp add: e5)
    also have "\<dots> = sel_of s2 m i" by (simp add: e4 s3_def setclient_effect)
    also have "\<dots> = sel_of s1 m i" using ne by (simp add: e2(10) cm1)
    also have "\<dots> = Some d" by (simp add: e1 d)
    finally have se5: "sel_of s5 m i = Some d" .
    have "stack_of s5 m i = c # stack_of s4 m i"
      by (simp add: e5(8) cm4 cv4 i_def)
    then have hd5: "head (stack_of s5 m i) = Some c" by (simp add: head_def)
    have sv5: "m_selview (monitor_at s5 m) = i"
      by (simp add: e5 e4 s3_def setclient_effect e2 e1 i_def)
    from se5 hd5 dc have "\<not> sel_ok s5 m" by (simp add: sel_ok_iff sv5)
    moreover have "sel_ok s6 m = sel_ok s5 m"
      using refocused_sel_ok_other [OF refocused_focus [OF w5 s6]] m(1) sel5 by simp
    moreover have "sel_ok s' m = sel_ok s6 m"
      using refocused_sel_ok_other [OF refocused_arrange [OF i6(1) s']] m(1) sel5 i6(4) by simp
    ultimately show ?thesis by simp
  qed
qed

lemma focus_Some_cases:
  assumes "focus s (Some c) = Some s'"
  shows "\<exists>s1 s2 s3 s4 (v4::View).
              s1 = (if c_mon (client_at s c) \<noteq> selmon s then s\<lparr>selmon := c_mon (client_at s c)\<rparr> else s)
            \<and> s2 = (if c_isurgent (client_at s1 c) then clearurgent s1 c else s1)
            \<and> detachstack s2 c = Some s3
            \<and> attachstack s3 c = Some s4 \<and> SELVIEW s4 (selmon s4) = Some v4
            \<and> s' = setview s4 (selmon s4) (m_selview (monitor_at s4 (selmon s4))) (v4\<lparr>v_sel := Some c\<rparr>)"
  using assms by (auto simp: focus_def Let_def split: bind_splits)

lemma inv_focus_client:
  assumes w: "wellformed s" and f: "focus s (Some c) = Some s'"
    and m: "c_mon (client_at s c) \<in> set (mons s)"
    and v: "c_view (client_at s c) = m_selview (monitor_at s (c_mon (client_at s c)))"
  shows "wellformed s'" "selmon s' = c_mon (client_at s c)" "sel_ok s' (selmon s')"
    "sel_ok s k \<Longrightarrow> sel_ok s' k"
proof -
  define M where "M = c_mon (client_at s c)"
  define I where "I = m_selview (monitor_at s M)"
  from focus_Some_cases [OF f] obtain s1 s2 s3 s4 and v4 :: View where
    s1: "s1 = (if c_mon (client_at s c) \<noteq> selmon s then s\<lparr>selmon := c_mon (client_at s c)\<rparr> else s)"
    and s2: "s2 = (if c_isurgent (client_at s1 c) then clearurgent s1 c else s1)"
    and s3: "detachstack s2 c = Some s3"
    and s4: "attachstack s3 c = Some s4"
    and v4: "SELVIEW s4 (selmon s4) = Some v4"
    and s': "s' = setview s4 (selmon s4) (m_selview (monitor_at s4 (selmon s4))) (v4\<lparr>v_sel := Some c\<rparr>)"
    by blast
  have e1: "selmon s1 = M" "mons s1 = mons s" "monitor_at s1 = monitor_at s" "client_at s1 = client_at s"
    by (simp_all add: s1 M_def)
  have st1: "stack_of s1 k i = stack_of s k i" "sel_of s1 k i = sel_of s k i" for k i
    by (simp_all add: stack_of_def sel_of_def e1)
  have w1: "wellformed s1"
    using w m by (simp add: wellformed_iff e1 st1 M_def)
  have e2: "selmon s2 = M" "mons s2 = mons s" "monitor_at s2 = monitor_at s"
    "\<And>d. c_mon (client_at s2 d) = c_mon (client_at s d)"
    "\<And>d. c_view (client_at s2 d) = c_view (client_at s d)"
    by (simp_all add: s2 clearurgent_effect e1)
  have st2: "stack_of s2 k i = stack_of s k i" "sel_of s2 k i = sel_of s k i" for k i
    by (simp_all add: stack_of_def sel_of_def e2)
  have w2: "wellformed s2"
    using w1 by (simp add: wellformed_iff e1 e2 st1 st2)
  have cm2: "c_mon (client_at s2 c) = M" "c_view (client_at s2 c) = I"
    by (simp_all add: e2 M_def I_def v)
  note e3 = detachstack_effect [OF s3, unfolded cm2]
  have w3: "wellformed s3" and u3: "unstacked s3 c"
    using wellformed_detachstack [OF w2 s3] by blast+
  have cm3: "c_mon (client_at s3 c) = M" "c_view (client_at s3 c) = I"
    by (simp_all add: e3(1) cm2)
  note e4 = attachstack_effect [OF s4, unfolded cm3]
  have w4: "wellformed s4" using wellformed_attachstack [OF w3 u3 s4] .
  have sel4: "selmon s4 = M" "mons s4 = mons s" by (simp_all add: e4 e3 e2)
  have sv4: "m_selview (monitor_at s4 k) = m_selview (monitor_at s k)" for k
    by (simp add: e4 e3 e2)
  have len4: "length (m_views (monitor_at s4 k)) = length (m_views (monitor_at s k))" for k
    by (simp add: e4 e3 e2)
  have I4: "I < NUMVIEWS" "I < length (m_views (monitor_at s4 M))"
    using e4(6,7) by (simp_all add: e4(5))
  have s'': "s' = setview s4 M I (v4\<lparr>v_sel := Some c\<rparr>)"
    by (simp add: s' sel4 sv4 I_def)
  from v4 have "v4 = m_views (monitor_at s4 M) ! I"
    by (simp add: SELVIEW_Some sel4 sv4 I_def)
  then have v4s: "v_stack v4 = stack_of s4 M I" by (simp add: stack_of_def)
  have stk': "stack_of s' k i = stack_of s4 k i" for k i
    by (simp add: s'' stack_of_setview [OF I4(2)] v4s)
  have cl': "client_at s' = client_at s4" by (simp add: s'')
  show w': "wellformed s'"
    using w4 by (simp add: wellformed_iff stk' cl') (simp add: s'' setview_effect)
  show "selmon s' = c_mon (client_at s c)" by (simp add: s'' sel4 M_def)
  have okM: "sel_ok s' M"
  proof -
    have "sel_of s' M I = Some c" by (simp add: s'' sel_of_setview [OF I4(2)])
    moreover have "head (stack_of s' M I) = Some c" by (simp add: stk' e4(8) head_def)
    moreover have "m_selview (monitor_at s' M) = I" by (simp add: s'' setview_effect sv4 I_def)
    moreover have "length (m_views (monitor_at s' M)) = length (m_views (monitor_at s4 M))"
      by (simp add: s'' setview_effect)
    ultimately show ?thesis using I4 by (simp add: sel_ok_iff)
  qed
  then show "sel_ok s' (selmon s')" by (simp add: s'' sel4)
  show "sel_ok s' k" if "sel_ok s k"
  proof (cases "k = M")
    case True
    with okM show ?thesis by simp
  next
    case False
    have "sel_ok s' k = sel_ok s k"
    proof (rule sel_ok_cong)
      show "m_selview (monitor_at s' k) = m_selview (monitor_at s k)"
        by (simp add: s'' setview_effect sv4)
      show "length (m_views (monitor_at s' k)) = length (m_views (monitor_at s k))"
        by (simp add: s'' setview_effect len4)
      show "stack_of s' k i = stack_of s k i" for i
        using False by (simp add: stk' e4(8) e3(9) st2)
      show "sel_of s' k i = sel_of s k i" for i
        using False by (simp add: s'' sel_of_setview [OF I4(2)] e4(9) e3(10) st2)
    qed
    with that show ?thesis by simp
  qed
qed

lemma inv_tagmon:
  assumes w: "wellformed s" and ok: "sel_ok s (selmon s)" and t: "tagmon cfg s dir = Some s'"
  shows "wellformed s'" "sel_ok s' (selmon s')"
    "dirtomon s dir \<noteq> Some m' \<Longrightarrow> sel_ok s m' \<Longrightarrow> sel_ok s' m'"
proof -
  from t obtain v :: View where v: "SELVIEW s (selmon s) = Some v"
    by (auto simp: tagmon_def split: bind_splits)
  have "wellformed s' \<and> sel_ok s' (selmon s') \<and> (dirtomon s dir \<noteq> Some m' \<longrightarrow> sel_ok s m' \<longrightarrow> sel_ok s' m')"
  proof (cases "v_sel v")
    case None
    with t v have "s' = s" by (simp add: tagmon_def)
    with w ok show ?thesis by simp
  next
    case (Some c)
    with t v obtain m where m: "dirtomon s dir = Some m" and sm: "sendmon cfg s c m = Some s'"
      by (auto simp: tagmon_def split: bind_splits)
    show ?thesis
    proof (cases "c_mon (client_at s c) = m")
      case True
      with sm have "s' = s" by (simp add: sendmon_def)
      with w ok show ?thesis by simp
    next
      case False
      from inv_sendmon(1,2) [OF w sm False] inv_sendmon(3) [OF w sm False, of m'] m show ?thesis by auto
    qed
  qed
  then show "wellformed s'" "sel_ok s' (selmon s')"
    "dirtomon s dir \<noteq> Some m' \<Longrightarrow> sel_ok s m' \<Longrightarrow> sel_ok s' m'"
    by blast+
qed

lemma inv_manage:
  assumes w: "wellformed s" and u: "unstacked s c" and mg: "manage cfg X s c win wa = Some s'"
  shows "wellformed s'" "sel_ok s' (selmon s')"
    "k \<noteq> c_mon (client_at s' c) \<or> k = selmon s' \<Longrightarrow> sel_ok s k \<Longrightarrow> sel_ok s' k"
proof -
  define s0 where "s0 = setclient s c (manage_client cfg X s win wa)"
  from mg obtain s1 s2 where s1: "attach s0 c = Some s1" and s2: "attachstack s1 c = Some s2"
    and s': "arrange cfg s2 (Some (c_mon (client_at s2 c))) = Some s'"
    by (auto simp: manage_def Let_def s0_def split: bind_splits)
  have w0: "wellformed s0" and u0: "unstacked s0 c"
    unfolding s0_def using wellformed_setclient [OF w u] by blast+
  note f1 = same_focus_attach [OF s1]
  have w1: "wellformed s1" using w0 f1 by (simp add: same_focus_wellformed)
  have u1: "unstacked s1 c" using u0 f1 by (simp add: same_focus_unstacked)
  have w2: "wellformed s2" using wellformed_attachstack [OF w1 u1 s2] .
  note r = refocused_arrange [OF w2 s']
  note i = inv_arrange [OF w2 s']
  show "wellformed s'" by (rule i(1))
  show "sel_ok s' (selmon s')" by (rule i(2))
  show "sel_ok s' k" if k: "k \<noteq> c_mon (client_at s' c) \<or> k = selmon s'" and ok: "sel_ok s k"
  proof (cases "k = selmon s'")
    case True
    with i(2) show ?thesis by simp
  next
    case False
    with k have "k \<noteq> c_mon (client_at s' c)" by simp
    then have "k \<noteq> c_mon (client_at s1 c)"
      by (simp add: refocused_client [OF r] attachstack_effect(1) [OF s2])
    with sel_ok_attachstack_other [OF s2] have "sel_ok s2 k = sel_ok s1 k" by simp
    also have "\<dots> = sel_ok s0 k" using f1 by (rule same_focus_sel_ok)
    also have "\<dots> = sel_ok s k" by (simp add: s0_def sel_ok_setclient)
    finally have "sel_ok s2 k" using ok by simp
    then show ?thesis by (rule i(3))
  qed
qed

section \<open>The claims\<close>

subsection \<open>C1: two tiled windows\<close>

lemma mw_demo: "int_of_float (fmul (float_of_double (dlit 55 100)) (float_of_int 1920)) = 1056"
  by code_simp

text \<open>
  C1, as stated: on the 1920 by 1080 monitor with \<open>mfact = 0.55\<close>, a border of 1 and a
  bar of 14 on top, after W1 is mapped and then W2, the tile arranger gives W1 the
  rectangle \<open>(0, 14, 1054, 1064)\<close> and W2 the rectangle \<open>(1056, 14, 862, 1064)\<close>.
  This fails: \<^verbatim>\<open>attach\<close> puts a new client at the head of the list, so the master is
  W2, the window mapped last.
\<close>

theorem C1_two_tiled_counterexample:
  "map_option (\<lambda>s. (rect (client_at s 1), rect (client_at s 2)))
     (do { s \<leftarrow> two_windows; tile demo_cfg s 0 })
   \<noteq> Some ((0, 14, 1054, 1064), (1056, 14, 862, 1064))"
  by code_simp

text \<open>
  C1, amended: in that setting, when the client list of the selected view is W2, W1
  (W2 mapped last, so at the head) and both are tiled, the tile arranger gives W2, the
  master, the rectangle \<open>(0, 14, 1054, 1064)\<close> and W1 the rectangle
  \<open>(1056, 14, 862, 1064)\<close>, whatever their rectangles were before.
\<close>

theorem C1_two_tiled:
  assumes v: "SELVIEW s m = Some v"
    and cl: "v_clients v = [w2, w1]" "w1 \<noteq> w2"
    and mf: "v_mfact v = float_of_double (dlit 55 100)"
    and fl: "\<not> c_isfloating (client_at s w1)" "\<not> c_isfloating (client_at s w2)"
    and bw: "c_bw (client_at s w1) = 1" "c_bw (client_at s w2) = 1"
    and mon: "c_mon (client_at s w1) = m" "c_mon (client_at s w2) = m"
    and geo: "m_mx (monitor_at s m) = 0" "m_my (monitor_at s m) = 0"
      "m_mw (monitor_at s m) = 1920" "m_mh (monitor_at s m) = 1080"
      "m_wx (monitor_at s m) = 0" "m_wy (monitor_at s m) = 14"
      "m_ww (monitor_at s m) = 1920" "m_wh (monitor_at s m) = 1066"
    and bh: "bh s = 14" and rh: "\<not> resizehints cfg"
  shows "\<exists>s'. tile cfg s m = Some s'
           \<and> rect (client_at s' w2) = (0, 14, 1054, 1064)
           \<and> rect (client_at s' w1) = (1056, 14, 862, 1064)"
proof -
  define s1 where "s1 = resize cfg s w2 0 14 1054 1064 False"
  have r2: "rect (client_at s1 w2) = (0, 14, 1054, 1064)"
    unfolding s1_def resize_rect using assms by (intro sizehints_plain) simp_all
  define s2 where "s2 = resize cfg s1 w1 1056 14 862 1064 False"
  have r1: "rect (client_at s2 w1) = (1056, 14, 862, 1064)"
    unfolding s2_def resize_rect using assms by (intro sizehints_plain) (simp_all add: s1_def)
  have r2': "rect (client_at s2 w2) = (0, 14, 1054, 1064)"
    using r2 cl by (simp add: s2_def)
  have s1f: "monitor_at s1 = monitor_at s" "bh s1 = bh s"
    "\<And>d. c_bw (client_at s1 d) = c_bw (client_at s d)"
    "\<And>d. c_isfloating (client_at s1 d) = c_isfloating (client_at s d)"
    by (simp_all add: s1_def)
  have "tile cfg s m = Some s2"
    using assms r2
    by (simp add: tile_def Let_def mw_demo int_of_uint_def uint_of_int_def s1_def[symmetric] s1f
        s2_def[symmetric] rect_def)
  with r1 r2' show ?thesis by simp
qed

lemma two_windows_eval:
  "map_option (\<lambda>s. (SELVIEW s 0, client_at s 1, client_at s 2, monitor_at s 0, bh s)) two_windows
   = Some (Some \<lparr>v_mfact = Fl 9227469 (- 24), v_clients = [2, 1], v_sel = Some 2,
                 v_stack = [2, 1], v_lt = demo_tile\<rparr>,
           cz\<lparr>c_name := ''xterm'', c_x := 1056, c_y := 14, c_w := 862, c_h := 1064,
              c_oldx := 0, c_oldy := 14, c_oldw := 1918, c_oldh := 1064, c_bw := 1, c_win := 11\<rparr>,
           cz\<lparr>c_name := ''xterm'', c_x := 0, c_y := 14, c_w := 1054, c_h := 1064,
              c_oldy := 14, c_oldw := 800, c_oldh := 600, c_bw := 1, c_win := 12\<rparr>,
           demo_monitor\<lparr>m_views := (replicate 9 demo_view)
              [0 := \<lparr>v_mfact = Fl 9227469 (- 24), v_clients = [2, 1], v_sel = Some 2,
                     v_stack = [2, 1], v_lt = demo_tile\<rparr>]\<rparr>,
           14)"
  by code_simp

theorem C1_two_tiled_witness:
  "case two_windows of
     None \<Rightarrow> False
   | Some s \<Rightarrow>
       (\<exists>s'. tile demo_cfg s 0 = Some s'
          \<and> rect (client_at s' 2) = (0, 14, 1054, 1064)
          \<and> rect (client_at s' 1) = (1056, 14, 862, 1064))"
proof -
  obtain s where s: "two_windows = Some s"
    and v: "SELVIEW s 0 = Some \<lparr>v_mfact = Fl 9227469 (- 24), v_clients = [2, 1], v_sel = Some 2,
                 v_stack = [2, 1], v_lt = demo_tile\<rparr>"
    and c1: "client_at s 1 = cz\<lparr>c_name := ''xterm'', c_x := 1056, c_y := 14, c_w := 862, c_h := 1064,
              c_oldx := 0, c_oldy := 14, c_oldw := 1918, c_oldh := 1064, c_bw := 1, c_win := 11\<rparr>"
    and c2: "client_at s 2 = cz\<lparr>c_name := ''xterm'', c_x := 0, c_y := 14, c_w := 1054, c_h := 1064,
              c_oldy := 14, c_oldw := 800, c_oldh := 600, c_bw := 1, c_win := 12\<rparr>"
    and m: "monitor_at s 0 = demo_monitor\<lparr>m_views := (replicate 9 demo_view)
              [0 := \<lparr>v_mfact = Fl 9227469 (- 24), v_clients = [2, 1], v_sel = Some 2,
                     v_stack = [2, 1], v_lt = demo_tile\<rparr>]\<rparr>"
    and b: "bh s = 14"
    using two_windows_eval by auto
  have mf: "float_of_double (dlit 55 100) = Fl 9227469 (- 24)"
    by code_simp
  have "\<exists>s'. tile demo_cfg s 0 = Some s'
          \<and> rect (client_at s' 2) = (0, 14, 1054, 1064)
          \<and> rect (client_at s' 1) = (1056, 14, 862, 1064)"
    by (rule C1_two_tiled [OF v]) (simp_all add: c1 [unfolded One_nat_def] c2 m b mf cz_def demo_monitor_def demo_cfg_def)
  then show ?thesis unfolding s by simp
qed

subsection \<open>C8: the squares on the tag labels\<close>

text \<open>
  C8 says that the empty square is drawn on the label of a tag exactly when the view
  of the tag has a client (for a tag whose square is not the filled one), which is what
  the manual page says as well.  \<^verbatim>\<open>drawbar\<close> passes \<^verbatim>\<open>NULL == m->views[i].clients\<close>
  for \<^verbatim>\<open>empty\<close>, the test the other way round.  After W1 and W2 are mapped and W2 is
  moved to the second view, the first view is selected and has the focused client W1:
  its square is filled.  The second view has the client W2 and gets no square.  The
  seven views without a client get the empty square.
\<close>

theorem C8_squares_inverted:
  "map_option (\<lambda>s. (map_option v_clients (getview (monitor_at s 0) 1),
                     map (map_option tl_square) (drawbar_tags s 0))) two_views
   = Some (Some [2],
           [Some FilledSquare, Some NoSquare, Some EmptySquare, Some EmptySquare,
            Some EmptySquare, Some EmptySquare, Some EmptySquare, Some EmptySquare,
            Some EmptySquare])"
  by code_simp

subsection \<open>C9: the command line\<close>

text \<open>
  C9 says that \<^verbatim>\<open>-v\<close> prints the version to the standard output and exits with
  status 0, as the manual page says of the output.  \<^verbatim>\<open>main\<close> prints the version
  through \<^verbatim>\<open>die\<close>: nothing is written to the standard output, the version goes to
  the standard error, and the status is \<^verbatim>\<open>EXIT_FAILURE\<close>.
\<close>

theorem C9_version_through_die:
  "main cfg [prog, ''-v'']
   = Exit [] (''dwm-'' @ VERSION cfg @ '', '' @ [CHR 0xC2, CHR 0xA9]
                @ '' 2006-2010 dwm engineers, see LICENSE for details'' @ [CHR 0x0A]) 1"
  by (simp add: main_def die_def EXIT_FAILURE_def)

subsection \<open>C10: windows as large as the screen\<close>

text \<open>
  C10: a window that \<^verbatim>\<open>manage\<close> receives with the width and the height of the
  screen of its monitor becomes a floating client with border width 0 at the origin of
  that screen; every other window becomes a client with the configured border width.
  The monitor is the one \<^verbatim>\<open>manage\<close> assigns: that of the window it is transient
  for, or the selected one.  The X protocol gives a window a width and a height of at
  least one.
\<close>

theorem C10_manage_screen_sized:
  assumes "manage cfg X s c w wa = Some s'"
    and "0 < wa_width wa" "0 < wa_height wa"
  shows "c_mon (client_at s' c) = c_mon (manage_client cfg X s w wa)
       \<and> (if wa_width wa = m_mw (monitor_at s (c_mon (manage_client cfg X s w wa)))
             \<and> wa_height wa = m_mh (monitor_at s (c_mon (manage_client cfg X s w wa)))
           then c_isfloating (client_at s' c) \<and> c_bw (client_at s' c) = 0
              \<and> c_x (client_at s' c) = m_mx (monitor_at s (c_mon (manage_client cfg X s w wa)))
              \<and> c_y (client_at s' c) = m_my (monitor_at s (c_mon (manage_client cfg X s w wa)))
           else c_bw (client_at s' c) = borderpx cfg)"
proof -
  define M where "M = c_mon (manage_client cfg X s w wa)"
  from manage_cases [OF assms(1)] obtain t where
    cl: "client_at t = (client_at s)(c := manage_client cfg X s w wa)"
    and mo: "\<And>m. m_mx (monitor_at t m) = m_mx (monitor_at s m) \<and> m_my (monitor_at t m) = m_my (monitor_at s m)
                 \<and> m_mw (monitor_at t m) = m_mw (monitor_at s m) \<and> m_mh (monitor_at t m) = m_mh (monitor_at s m)"
    and ar: "arrange cfg t (Some M) = Some s'"
    unfolding M_def by blast
  note fr = frame_arrange [OF ar]
  have mon: "c_mon (client_at s' c) = M"
    using frame_client(4) [OF fr, of c] cl by (simp add: M_def)
  show ?thesis
  proof (cases "wa_width wa = m_mw (monitor_at s M) \<and> wa_height wa = m_mh (monitor_at s M)")
    case True
    from True have sz: "c_w (manage_init X s w wa) = m_mw (monitor_at s (c_mon (manage_init X s w wa)))
         \<and> c_h (manage_init X s w wa) = m_mh (monitor_at s (c_mon (manage_init X s w wa)))"
      by (simp add: M_def)
    have "at_origin t c M"
      using True assms(2,3) mo [of M] cl manage_client_floating [of cfg s X w wa]
      by (simp add: at_origin_def manage_place_screen_sized [OF sz] M_def)
    from arrange_at_origin [OF ar this] have "at_origin s' c M" .
    moreover have "m_mx (monitor_at s' M) = m_mx (monitor_at s M)" "m_my (monitor_at s' M) = m_my (monitor_at s M)"
      using frame_monitor [OF fr, of M] mo [of M] by simp_all
    ultimately show ?thesis using True mon
      unfolding M_def at_origin_def by simp
  next
    case False
    have "c_bw (manage_client cfg X s w wa) = borderpx cfg"
      using False by (simp add: manage_place_other M_def)
    then have "c_bw (client_at s' c) = borderpx cfg"
      using frame_client(1) [OF fr, of c] cl by simp
    with False mon show ?thesis unfolding M_def by auto
  qed
qed

theorem C10_manage_screen_sized_witness:
  "case manage demo_cfg demo_X demo_init 1 11 screen_wa of
     None \<Rightarrow> False
   | Some s' \<Rightarrow> c_isfloating (client_at s' 1) \<and> c_bw (client_at s' 1) = 0
               \<and> c_x (client_at s' 1) = 0 \<and> c_y (client_at s' 1) = 0"
proof -
  have "manage demo_cfg demo_X demo_init 1 11 screen_wa \<noteq> None"
    by code_simp
  then obtain s' where s': "manage demo_cfg demo_X demo_init 1 11 screen_wa = Some s'"
    by auto
  have c: "wa_width screen_wa = m_mw (monitor_at demo_init (c_mon (manage_client demo_cfg demo_X demo_init 11 screen_wa)))"
    "wa_height screen_wa = m_mh (monitor_at demo_init (c_mon (manage_client demo_cfg demo_X demo_init 11 screen_wa)))"
    "m_mx (monitor_at demo_init (c_mon (manage_client demo_cfg demo_X demo_init 11 screen_wa))) = 0"
    "m_my (monitor_at demo_init (c_mon (manage_client demo_cfg demo_X demo_init 11 screen_wa))) = 0"
    "0 < wa_width screen_wa" "0 < wa_height screen_wa"
    by code_simp+
  from C10_manage_screen_sized [OF s' c(5,6)] c(1-4) show ?thesis
    unfolding s' by simp
qed

subsection \<open>C4: fixed clients float\<close>

text \<open>
  C4, as stated: a fixed client is floating at every return to the event loop, also
  after a PropertyNotify on \<^verbatim>\<open>WM_NORMAL_HINTS\<close>.  This fails there:
  \<^verbatim>\<open>propertynotify\<close> calls \<^verbatim>\<open>updatesizehints\<close>, which sets \<^verbatim>\<open>isfixed\<close> and leaves
  \<^verbatim>\<open>isfloating\<close> as it is.  The tiled client W1 announces a fixed size of 200 by
  100 and is fixed and not floating afterwards.
\<close>

theorem C4_fixed_is_floating_counterexample:
  "map_option (\<lambda>s. (c_isfixed (client_at s 1), c_isfloating (client_at s 1)))
     (do { s \<leftarrow> one_window; propertynotify demo_cfg fixed_X s hints_event 0 })
   = Some (True, False)"
  by code_simp

text \<open>
  C4, amended: a client that \<^verbatim>\<open>manage\<close> creates is floating if it is fixed; after
  \<^verbatim>\<open>togglefloating\<close> the selected client is floating if it is fixed; a PropertyNotify
  on \<^verbatim>\<open>WM_NORMAL_HINTS\<close> sets \<^verbatim>\<open>isfixed\<close> from the new hints and leaves
  \<^verbatim>\<open>isfloating\<close> unchanged.
\<close>

theorem C4_fixed_is_floating:
  "(manage cfg X s c w wa = Some s' \<longrightarrow>
      (c_isfixed (client_at s' c) \<longrightarrow> c_isfloating (client_at s' c)))
   \<and> (togglefloating cfg s = Some s' \<and> SELVIEW s (selmon s) = Some v \<and> v_sel v = Some c \<longrightarrow>
      (c_isfixed (client_at s' c) \<longrightarrow> c_isfloating (client_at s' c)))
   \<and> (propertynotify cfg X s \<lparr>pe_window = w, pe_atom = XA_WM_NORMAL_HINTS, pe_deleted = False\<rparr> junk = Some s'
        \<and> wintoclient s w = Some c \<longrightarrow>
      c_isfloating (client_at s' c) = c_isfloating (client_at s c)
      \<and> c_isfixed (client_at s' c) = c_isfixed (updatesizehints X (client_at s c)))"
proof (intro conjI impI)
  assume a: "manage cfg X s c w wa = Some s'" and f: "c_isfixed (client_at s' c)"
  from manage_cases [OF a] obtain t where
    cl: "client_at t = (client_at s)(c := manage_client cfg X s w wa)"
    and ar: "arrange cfg t (Some (c_mon (manage_client cfg X s w wa))) = Some s'"
    by blast
  from f arrange_flags [OF ar, of c] cl manage_client_fixed [of cfg X s w wa]
  show "c_isfloating (client_at s' c)" by simp
next
  assume a: "togglefloating cfg s = Some s' \<and> SELVIEW s (selmon s) = Some v \<and> v_sel v = Some c"
    and f: "c_isfixed (client_at s' c)"
  from a togglefloating_cases [of cfg s s' v c] obtain t where
    "arrange cfg t (Some (selmon t)) = Some s'"
    "c_isfixed (client_at t c) = c_isfixed (client_at s c)"
    "c_isfloating (client_at t c) = (\<not> c_isfloating (client_at s c) \<or> c_isfixed (client_at s c))"
    by blast
  with f arrange_flags [of cfg t "Some (selmon t)" s' c]
  show "c_isfloating (client_at s' c)" by simp
next
  assume a: "propertynotify cfg X s \<lparr>pe_window = w, pe_atom = XA_WM_NORMAL_HINTS, pe_deleted = False\<rparr> junk = Some s'
        \<and> wintoclient s w = Some c"
  then have "s' = setclient s c (updatesizehints X (client_at s c))"
    by (clarsimp simp: propertynotify_def)
  then show "c_isfloating (client_at s' c) = c_isfloating (client_at s c)"
    "c_isfixed (client_at s' c) = c_isfixed (updatesizehints X (client_at s c))"
    by simp_all
qed

theorem C4_fixed_is_floating_witness:
  "case manage demo_cfg fixed_X demo_init 1 11 demo_wa of
     None \<Rightarrow> False
   | Some s' \<Rightarrow> c_isfixed (client_at s' 1) \<and> c_isfloating (client_at s' 1)"
proof -
  have "map_option (\<lambda>s'. c_isfixed (client_at s' 1)) (manage demo_cfg fixed_X demo_init 1 11 demo_wa)
        = Some True"
    by code_simp
  then obtain s' where s': "manage demo_cfg fixed_X demo_init 1 11 demo_wa = Some s'"
    and f: "c_isfixed (client_at s' 1)"
    by auto
  from C4_fixed_is_floating [THEN conjunct1, rule_format, OF s' f] f show ?thesis
    unfolding s' by simp
qed

subsection \<open>C5: fullscreen and back\<close>

text \<open>
  C5, as stated: setting and then unsetting the fullscreen state restores the
  rectangle of the client exactly.  The handler of the unset message ends with
  \<^verbatim>\<open>arrange\<close>, which lays the restored client out again; when its hints changed
  since it was laid out last, the rectangle differs.  Before: \<open>(0, 14, 1918, 1064)\<close>;
  fullscreen: \<open>(0, 0, 1920, 1080)\<close>; after: \<open>(0, 14, 1900, 1000)\<close>.
\<close>

theorem C5_fullscreen_round_trip_counterexample:
  "do { s \<leftarrow> before_fullscreen;
        s1 \<leftarrow> clientmessage hints_cfg s (fullscreen_event 1);
        s2 \<leftarrow> clientmessage hints_cfg s1 (fullscreen_event 0);
        Some (rect (client_at s 1), rect (client_at s1 1), rect (client_at s2 1)) }
   = Some ((0, 14, 1918, 1064), (0, 0, 1920, 1080), (0, 14, 1900, 1000))"
  by code_simp

text \<open>
  C5, amended: for a managed client \<open>c\<close> of the window \<open>w\<close>, the message that sets
  fullscreen makes \<open>c\<close> floating with border width 0 and the screen rectangle of its
  monitor.  The message that unsets it right afterwards restores \<open>x\<close>, \<open>y\<close>, \<open>w\<close>, \<open>h\<close>,
  the border width and the floating flag to their values before fullscreen and then
  arranges the monitor of \<open>c\<close>.  The arrangement keeps the border width and the
  floating flag; the rectangle is the one it computes from the restored state.
\<close>

theorem C5_fullscreen_round_trip:
  assumes w: "wintoclient s w = Some c" and d: "d \<noteq> 0"
  shows "clientmessage cfg s \<lparr>cme_window = w, cme_message_type = NetWMState,
                                 cme_data0 = d, cme_data1 = NetWMFullscreen\<rparr>
           = Some (enter_fullscreen s c)
       \<and> c_isfloating (client_at (enter_fullscreen s c) c)
       \<and> c_bw (client_at (enter_fullscreen s c) c) = 0
       \<and> rect (client_at (enter_fullscreen s c) c)
           = (m_mx (monitor_at s (c_mon (client_at s c))), m_my (monitor_at s (c_mon (client_at s c))),
              m_mw (monitor_at s (c_mon (client_at s c))), m_mh (monitor_at s (c_mon (client_at s c))))
       \<and> clientmessage cfg (enter_fullscreen s c)
            \<lparr>cme_window = w, cme_message_type = NetWMState, cme_data0 = 0, cme_data1 = NetWMFullscreen\<rparr>
           = arrange cfg (leave_fullscreen (enter_fullscreen s c) c) (Some (c_mon (client_at s c)))
       \<and> rect (client_at (leave_fullscreen (enter_fullscreen s c) c) c) = rect (client_at s c)
       \<and> c_bw (client_at (leave_fullscreen (enter_fullscreen s c) c) c) = c_bw (client_at s c)
       \<and> c_isfloating (client_at (leave_fullscreen (enter_fullscreen s c) c) c) = c_isfloating (client_at s c)
       \<and> (\<forall>s'. clientmessage cfg (enter_fullscreen s c)
                  \<lparr>cme_window = w, cme_message_type = NetWMState, cme_data0 = 0, cme_data1 = NetWMFullscreen\<rparr>
                = Some s'
              \<longrightarrow> c_bw (client_at s' c) = c_bw (client_at s c)
                \<and> c_isfloating (client_at s' c) = c_isfloating (client_at s c))"
proof -
  have w': "wintoclient (enter_fullscreen s c) w = Some c"
    using w wintoclient_cong [of "enter_fullscreen s c" s w] by (simp add: enter_fullscreen_fields)
  have m1: "clientmessage cfg s \<lparr>cme_window = w, cme_message_type = NetWMState,
                                 cme_data0 = d, cme_data1 = NetWMFullscreen\<rparr>
           = Some (enter_fullscreen s c)"
    using w d by (simp add: clientmessage_def)
  have m2: "clientmessage cfg (enter_fullscreen s c)
            \<lparr>cme_window = w, cme_message_type = NetWMState, cme_data0 = 0, cme_data1 = NetWMFullscreen\<rparr>
           = arrange cfg (leave_fullscreen (enter_fullscreen s c) c) (Some (c_mon (client_at s c)))"
    using w' by (simp add: clientmessage_def leave_enter_fullscreen)
  have m3: "c_bw (client_at s' c) = c_bw (client_at s c)
                \<and> c_isfloating (client_at s' c) = c_isfloating (client_at s c)"
    if "arrange cfg (leave_fullscreen (enter_fullscreen s c) c) (Some (c_mon (client_at s c))) = Some s'" for s'
    using arrange_flags [OF that, of c] by (simp add: leave_enter_fullscreen)
  show ?thesis
    using m1 m2 m3 by (simp add: enter_fullscreen_fields leave_enter_fullscreen)
qed

theorem C5_fullscreen_round_trip_witness:
  "case one_window of
     None \<Rightarrow> False
   | Some s \<Rightarrow>
       clientmessage demo_cfg s (fullscreen_event 1) = Some (enter_fullscreen s 1)
       \<and> rect (client_at (enter_fullscreen s 1) 1) = (0, 0, 1920, 1080)
       \<and> rect (client_at (leave_fullscreen (enter_fullscreen s 1) 1) 1) = (0, 14, 1918, 1064)"
proof -
  have "map_option (\<lambda>s. (wintoclient s 11, rect (client_at s 1), monitor_at s (c_mon (client_at s 1)))) one_window
        = Some (Some 1, (0, 14, 1918, 1064),
                demo_monitor\<lparr>m_views := (replicate 9 demo_view)
                  [0 := \<lparr>v_mfact = Fl 9227469 (- 24), v_clients = [1], v_sel = Some 1,
                         v_stack = [1], v_lt = demo_tile\<rparr>]\<rparr>)"
    by code_simp
  then obtain s where s: "one_window = Some s" and w: "wintoclient s 11 = Some 1"
    and r: "rect (client_at s 1) = (0, 14, 1918, 1064)"
    and m: "monitor_at s (c_mon (client_at s 1)) = demo_monitor\<lparr>m_views := (replicate 9 demo_view)
                  [0 := \<lparr>v_mfact = Fl 9227469 (- 24), v_clients = [1], v_sel = Some 1,
                         v_stack = [1], v_lt = demo_tile\<rparr>]\<rparr>"
    by auto
  have one: "(1::int) \<noteq> 0" by simp
  from C5_fullscreen_round_trip [OF w one, of demo_cfg] r m show ?thesis
    unfolding s by (simp add: fullscreen_event_def demo_monitor_def)
qed

subsection \<open>C6: the range of the master fraction\<close>

text \<open>
  C6, as stated: a delta that keeps the selected view's \<^verbatim>\<open>mfact\<close> inside [0.1, 0.9] sets
  \<^verbatim>\<open>mfact\<close> to the old value plus the delta. Under the floating layout, whose
  \<^verbatim>\<open>arrange\<close> is NULL, \<^verbatim>\<open>setmfact\<close> returns at once: with \<^verbatim>\<open>mfact\<close> 0.55 and the
  delta 0.05 the sum passes the range test and \<^verbatim>\<open>mfact\<close> is still 0.55 afterwards.
\<close>

theorem C6_mfact_range_counterexample:
  "do { s \<leftarrow> floating_layout;
        s' \<leftarrow> setmfact demo_cfg s (Some (float_of_double (dlit 5 100)));
        v \<leftarrow> SELVIEW s 0;
        v' \<leftarrow> SELVIEW s' 0;
        Some (v_mfact v, mfact_in_range (faddp 24 (float_of_double (dlit 5 100)) (v_mfact v)),
              v_mfact v') }
   = Some (Fl 9227469 (- 24), True, Fl 9227469 (- 24))"
  by code_simp

text \<open>
  C6, amended. \<^verbatim>\<open>createmon\<close> initialises the \<^verbatim>\<open>mfact\<close> of every view to the configured
  default. \<^verbatim>\<open>setmfact\<close> keeps every \<^verbatim>\<open>mfact\<close> of every monitor valid, where valid means:
  a \<^verbatim>\<open>float\<close> that passes the test of \<^verbatim>\<open>setmfact\<close> against the \<^verbatim>\<open>double\<close> literals 0.1 and
  0.9; such a value is finite and lies in the real interval [1/10, 9/10]. \<^verbatim>\<open>setmfact\<close> leaves
  the whole state unchanged when the argument is NULL, when the delta is not strictly
  between -1 and 1, when the selected view's layout has no arrange function, or when the
  \<^verbatim>\<open>float\<close> sum of delta and old value fails the range test. In every other case the
  selected view's \<^verbatim>\<open>mfact\<close> becomes that sum, rounded to \<^verbatim>\<open>float\<close>, no other
  \<^verbatim>\<open>mfact\<close> of the selected monitor changes, and the result of \<^verbatim>\<open>setmfact\<close> is the
  result of \<^verbatim>\<open>arrange\<close> on the selected monitor, run in the state with the new \<^verbatim>\<open>mfact\<close>.
\<close>

theorem C6_mfact_range:
  "(createmon cfg raw = Some m \<longrightarrow> list_all (\<lambda>v. v_mfact v = mfact cfg) (m_views m))
   \<and> (views_mfact_valid s \<and> setmfact cfg s arg = Some s' \<longrightarrow> views_mfact_valid s')
   \<and> (mfact_valid x \<longrightarrow> ffinite x \<and> 1 / 10 \<le> fval x \<and> fval x \<le> 9 / 10)
   \<and> (SELVIEW s (selmon s) = Some v
        \<and> (arg = None \<or> (\<exists>f. arg = Some f \<and> (\<not> flt (Fl (- 1) 0) f \<or> \<not> flt f (Fl 1 0)
              \<or> lt_arrange (v_lt v) = None \<or> \<not> mfact_in_range (faddp 24 f (v_mfact v)))))
      \<longrightarrow> setmfact cfg s arg = Some s)
   \<and> (SELVIEW s (selmon s) = Some v \<and> flt (Fl (- 1) 0) f \<and> flt f (Fl 1 0)
        \<and> lt_arrange (v_lt v) \<noteq> None \<and> mfact_in_range (faddp 24 f (v_mfact v))
        \<and> setmfact cfg s (Some f) = Some s'
      \<longrightarrow> map v_mfact (m_views (monitor_at s' (selmon s)))
          = (map v_mfact (m_views (monitor_at s (selmon s))))
              [m_selview (monitor_at s (selmon s)) := faddp 24 f (v_mfact v)])
   \<and> (SELVIEW s (selmon s) = Some v \<and> flt (Fl (- 1) 0) f \<and> flt f (Fl 1 0)
        \<and> lt_arrange (v_lt v) \<noteq> None \<and> mfact_in_range (faddp 24 f (v_mfact v))
      \<longrightarrow> setmfact cfg s (Some f)
          = arrange cfg (setview s (selmon s) (m_selview (monitor_at s (selmon s)))
                           (v\<lparr>v_mfact := faddp 24 f (v_mfact v)\<rparr>)) (Some (selmon s)))"
proof (intro conjI impI)
  assume "createmon cfg raw = Some m"
  then show "list_all (\<lambda>v. v_mfact v = mfact cfg) (m_views m)" by (rule createmon_mfact)
next
  assume a: "views_mfact_valid s \<and> setmfact cfg s arg = Some s'"
  then have ok: "views_mfact_valid s" and r: "setmfact cfg s arg = Some s'" by simp_all
  from setmfact_cases [OF r] consider (same) "s' = s"
    | (applied) f0 v0 where "arg = Some f0" "SELVIEW s (selmon s) = Some v0" "flt (Fl (- 1) 0) f0"
        "flt f0 (Fl 1 0)" "lt_arrange (v_lt v0) \<noteq> None" "mfact_in_range (faddp 24 f0 (v_mfact v0))"
    by blast
  then show "views_mfact_valid s'"
  proof cases
    case same
    with ok show ?thesis by simp
  next
    case applied
    define t where "t = setview s (selmon s) (m_selview (monitor_at s (selmon s)))
                        (v0\<lparr>v_mfact := faddp 24 f0 (v_mfact v0)\<rparr>)"
    from r applied(1) setmfact_applied [OF applied(2-6), of cfg]
    have ar: "arrange cfg t (Some (selmon s)) = Some s'"
      by (simp add: t_def)
    have "views_mfact_valid t"
      unfolding t_def using ok applied(6)
      by (intro views_mfact_valid_setview) (simp_all add: mfact_valid_def is_float_faddp)
    with frame_arrange [OF ar] show ?thesis by (rule views_mfact_valid_frame)
  qed
next
  assume "mfact_valid x"
  from mfact_valid_real [OF this] show "ffinite x" by simp
next
  assume "mfact_valid x"
  from mfact_valid_real [OF this] show "1 / 10 \<le> fval x" by simp
next
  assume "mfact_valid x"
  from mfact_valid_real [OF this] show "fval x \<le> 9 / 10" by simp
next
  assume "SELVIEW s (selmon s) = Some v
        \<and> (arg = None \<or> (\<exists>f. arg = Some f \<and> (\<not> flt (Fl (- 1) 0) f \<or> \<not> flt f (Fl 1 0)
              \<or> lt_arrange (v_lt v) = None \<or> \<not> mfact_in_range (faddp 24 f (v_mfact v)))))"
  then show "setmfact cfg s arg = Some s" by (blast intro: setmfact_ignored)
next
  assume a: "SELVIEW s (selmon s) = Some v \<and> flt (Fl (- 1) 0) f \<and> flt f (Fl 1 0)
        \<and> lt_arrange (v_lt v) \<noteq> None \<and> mfact_in_range (faddp 24 f (v_mfact v))
        \<and> setmfact cfg s (Some f) = Some s'"
  define t where "t = setview s (selmon s) (m_selview (monitor_at s (selmon s)))
                        (v\<lparr>v_mfact := faddp 24 f (v_mfact v)\<rparr>)"
  from a setmfact_applied [of s v f cfg] have ar: "arrange cfg t (Some (selmon s)) = Some s'"
    by (simp add: t_def)
  have "map v_mfact (m_views (monitor_at s' (selmon s))) = map v_mfact (m_views (monitor_at t (selmon s)))"
    using frame_monitor(6) [OF frame_arrange [OF ar]] .
  also have "\<dots> = (map v_mfact (m_views (monitor_at s (selmon s))))
              [m_selview (monitor_at s (selmon s)) := faddp 24 f (v_mfact v)]"
    by (simp add: t_def setview_def map_update)
  finally show "map v_mfact (m_views (monitor_at s' (selmon s)))
          = (map v_mfact (m_views (monitor_at s (selmon s))))
              [m_selview (monitor_at s (selmon s)) := faddp 24 f (v_mfact v)]" .
next
  assume "SELVIEW s (selmon s) = Some v \<and> flt (Fl (- 1) 0) f \<and> flt f (Fl 1 0)
        \<and> lt_arrange (v_lt v) \<noteq> None \<and> mfact_in_range (faddp 24 f (v_mfact v))"
  then show "setmfact cfg s (Some f)
          = arrange cfg (setview s (selmon s) (m_selview (monitor_at s (selmon s)))
                           (v\<lparr>v_mfact := faddp 24 f (v_mfact v)\<rparr>)) (Some (selmon s))"
    by (simp add: setmfact_applied)
qed

theorem C6_mfact_range_witness:
  "case two_windows of
     None \<Rightarrow> False
   | Some s \<Rightarrow>
      (case setmfact demo_cfg s (Some (float_of_double (dlit 5 100))) of
         None \<Rightarrow> False
       | Some s' \<Rightarrow> views_mfact_valid s'
           \<and> map v_mfact (m_views (monitor_at s' 0))
               = (replicate 9 (Fl 9227469 (- 24)))[0 := Fl 10066330 (- 24)]
           \<and> arrange demo_cfg
                 (setview s 0 0 \<lparr>v_mfact = Fl 10066330 (- 24), v_clients = [2, 1], v_sel = Some 2,
                                 v_stack = [2, 1], v_lt = demo_tile\<rparr>) (Some 0) = Some s')"
proof -
  have "map_option (\<lambda>s. (views_mfact_valid s, selmon s, SELVIEW s 0, m_selview (monitor_at s 0),
                          map v_mfact (m_views (monitor_at s 0)),
                          setmfact demo_cfg s (Some (float_of_double (dlit 5 100))) \<noteq> None))
          two_windows
        = Some (True, 0, Some \<lparr>v_mfact = Fl 9227469 (- 24), v_clients = [2, 1], v_sel = Some 2,
                 v_stack = [2, 1], v_lt = demo_tile\<rparr>, 0, replicate 9 (Fl 9227469 (- 24)), True)"
    by code_simp
  then obtain s where s: "two_windows = Some s" and ok: "views_mfact_valid s" and sm: "selmon s = 0"
    and v0: "SELVIEW s 0 = Some \<lparr>v_mfact = Fl 9227469 (- 24), v_clients = [2, 1], v_sel = Some 2,
                 v_stack = [2, 1], v_lt = demo_tile\<rparr>"
    and sv: "m_selview (monitor_at s 0) = 0"
    and mf: "map v_mfact (m_views (monitor_at s 0)) = replicate 9 (Fl 9227469 (- 24))"
    and ex: "setmfact demo_cfg s (Some (float_of_double (dlit 5 100))) \<noteq> None"
    by auto
  from ex obtain s' where s': "setmfact demo_cfg s (Some (float_of_double (dlit 5 100))) = Some s'"
    by auto
  from v0 sm have v: "SELVIEW s (selmon s) = Some \<lparr>v_mfact = Fl 9227469 (- 24), v_clients = [2, 1], v_sel = Some 2,
                 v_stack = [2, 1], v_lt = demo_tile\<rparr>"
    by simp
  have d: "flt (Fl (- 1) 0) (float_of_double (dlit 5 100))" "flt (float_of_double (dlit 5 100)) (Fl 1 0)"
    "mfact_in_range (faddp 24 (float_of_double (dlit 5 100)) (Fl 9227469 (- 24)))"
    "faddp 24 (float_of_double (dlit 5 100)) (Fl 9227469 (- 24)) = Fl 10066330 (- 24)"
    by code_simp+
  note c6 = C6_mfact_range [of demo_cfg undefined undefined s "Some (float_of_double (dlit 5 100))" s'
      undefined "\<lparr>v_mfact = Fl 9227469 (- 24), v_clients = [2, 1], v_sel = Some 2,
                 v_stack = [2, 1], v_lt = demo_tile\<rparr>" "float_of_double (dlit 5 100)"]
  from c6 [THEN conjunct2, THEN conjunct1] ok s' have 1: "views_mfact_valid s'" by simp
  from c6 [THEN conjunct2, THEN conjunct2, THEN conjunct2, THEN conjunct2, THEN conjunct2] v d s'
  have 3: "arrange demo_cfg
             (setview s 0 0 \<lparr>v_mfact = Fl 10066330 (- 24), v_clients = [2, 1], v_sel = Some 2,
                             v_stack = [2, 1], v_lt = demo_tile\<rparr>) (Some 0) = Some s'"
    by (simp add: sm sv demo_tile_def)
  from c6 [THEN conjunct2, THEN conjunct2, THEN conjunct2, THEN conjunct2, THEN conjunct1] v d s'
  have 2: "map v_mfact (m_views (monitor_at s' 0)) = (replicate 9 (Fl 9227469 (- 24)))[0 := Fl 10066330 (- 24)]"
    by (simp add: sm sv mf demo_tile_def)
  from 1 2 3 show ?thesis by (simp only: s s' option.case simp_thms)
qed

subsection \<open>C7: the aspect limits\<close>

text \<open>
  C7, as stated: the aspect step leaves a width and a height with
  \<^verbatim>\<open>mina <= h/w <= maxa\<close>.  The floating client \<open>aspect_client\<close> has \<^verbatim>\<open>mina\<close> = 3/4
  and \<^verbatim>\<open>maxa\<close> = 16/9, both positive.  From 1600x600 the aspect step makes 1067x600,
  and 600/1067 is below \<^verbatim>\<open>mina\<close>: the code treats \<^verbatim>\<open>mina\<close> as the upper limit of
  \<^verbatim>\<open>h/w\<close> and \<^verbatim>\<open>maxa\<close> as the upper limit of \<^verbatim>\<open>w/h\<close>.
\<close>

theorem C7_aspect_step_counterexample:
  "(flt (Fl 0 0) (c_mina aspect_client), flt (Fl 0 0) (c_maxa aspect_client),
    c_isfloating aspect_client, c_mina aspect_client,
    aspect_step aspect_client (1600, 600),
    flt (fdivp 24 (float_of_int 600) (float_of_int 1067)) (c_mina aspect_client),
    (600::int) * 4 < 3 * 1067)
   = (True, True, True, Fl 12582912 (- 24), (1067, 600), True, True)"
  by code_simp

text \<open>
  C7, amended.  For a width and a height that are not negative, the aspect step does
  this.  When \<^verbatim>\<open>mina\<close> and \<^verbatim>\<open>maxa\<close> are both positive and \<^verbatim>\<open>maxa < (float)w / h\<close>, the
  height is kept, \<^verbatim>\<open>maxa\<close> is finite and the new width is \<^verbatim>\<open>h * maxa\<close> rounded to the
  nearest integer: it differs from the exact product by at most 1/2 plus the rounding
  error of the \<^verbatim>\<open>float\<close> operations, which is at most (h maxa + 1) / 2^22.  Otherwise,
  when \<^verbatim>\<open>mina < (float)h / w\<close>, the width is kept, \<^verbatim>\<open>mina\<close> is finite and the new height
  is \<^verbatim>\<open>w * mina\<close> rounded to the nearest integer, within the same bound.  In every other
  case, and when \<^verbatim>\<open>mina\<close> or \<^verbatim>\<open>maxa\<close> is not positive, width and height are unchanged.
\<close>

theorem C7_aspect_step:
  "0 \<le> w \<and> 0 \<le> h \<and> aspect_step c (w, h) = (w', h') \<longrightarrow>
     (if flt (Fl 0 0) (c_mina c) \<and> flt (Fl 0 0) (c_maxa c) then
        if flt (c_maxa c) (fdivp 24 (float_of_int w) (float_of_int h)) then
          h' = h \<and> ffinite (c_maxa c)
          \<and> \<bar>real_of_int w' - real_of_int h * fval (c_maxa c)\<bar>
               \<le> 1 / 2 + (real_of_int h * fval (c_maxa c) + 1) / 2 ^ 22
        else if flt (c_mina c) (fdivp 24 (float_of_int h) (float_of_int w)) then
          w' = w \<and> ffinite (c_mina c)
          \<and> \<bar>real_of_int h' - real_of_int w * fval (c_mina c)\<bar>
               \<le> 1 / 2 + (real_of_int w * fval (c_mina c) + 1) / 2 ^ 22
        else w' = w \<and> h' = h
      else w' = w \<and> h' = h)"
proof (intro impI)
  assume a: "0 \<le> w \<and> 0 \<le> h \<and> aspect_step c (w, h) = (w', h')"
  then have w: "0 \<le> w" and h: "0 \<le> h" and r: "aspect_step c (w, h) = (w', h')" by simp_all
  show "if flt (Fl 0 0) (c_mina c) \<and> flt (Fl 0 0) (c_maxa c) then
        if flt (c_maxa c) (fdivp 24 (float_of_int w) (float_of_int h)) then
          h' = h \<and> ffinite (c_maxa c)
          \<and> \<bar>real_of_int w' - real_of_int h * fval (c_maxa c)\<bar>
               \<le> 1 / 2 + (real_of_int h * fval (c_maxa c) + 1) / 2 ^ 22
        else if flt (c_mina c) (fdivp 24 (float_of_int h) (float_of_int w)) then
          w' = w \<and> ffinite (c_mina c)
          \<and> \<bar>real_of_int h' - real_of_int w * fval (c_mina c)\<bar>
               \<le> 1 / 2 + (real_of_int w * fval (c_mina c) + 1) / 2 ^ 22
        else w' = w \<and> h' = h
      else w' = w \<and> h' = h"
  proof (cases "flt (Fl 0 0) (c_mina c) \<and> flt (Fl 0 0) (c_maxa c)")
    case False
    with r show ?thesis by (auto simp: aspect_step_def Let_def)
  next
    case pos: True
    show ?thesis
    proof (cases "flt (c_maxa c) (fdivp 24 (float_of_int w) (float_of_int h))")
      case True
      from flt_finite_left [OF True] pos obtain a ea where m: "c_maxa c = Fl a ea" "0 < a" by blast
      from r pos True have "h' = h"
        and "w' = int_of_float (faddp 53 (fmul (float_of_int h) (c_maxa c)) (dlit 5 10))"
        by (auto simp: aspect_step_def Let_def)
      with aspect_round [of h a ea] h m pos True show ?thesis by simp
    next
      case nmax: False
      show ?thesis
      proof (cases "flt (c_mina c) (fdivp 24 (float_of_int h) (float_of_int w))")
        case True
        from flt_finite_left [OF True] pos obtain a ea where m: "c_mina c = Fl a ea" "0 < a" by blast
        from r pos nmax True have "w' = w"
          and "h' = int_of_float (faddp 53 (fmul (float_of_int w) (c_mina c)) (dlit 5 10))"
          by (auto simp: aspect_step_def Let_def)
        with aspect_round [of w a ea] w m pos nmax True show ?thesis by simp
      next
        case False
        with r pos nmax show ?thesis by (auto simp: aspect_step_def Let_def)
      qed
    qed
  qed
qed

theorem C7_aspect_step_witness:
  "aspect_step aspect_client (1600, 600) = (1067, 600)
   \<and> \<bar>1067 - 600 * fval (c_maxa aspect_client)\<bar>
         \<le> 1 / 2 + (600 * fval (c_maxa aspect_client) + 1) / 2 ^ 22
   \<and> aspect_step aspect_client (600, 600) = (600, 450)
   \<and> \<bar>450 - 600 * fval (c_mina aspect_client)\<bar>
         \<le> 1 / 2 + (600 * fval (c_mina aspect_client) + 1) / 2 ^ 22"
proof -
  have e: "aspect_step aspect_client (1600, 600) = (1067, 600)"
    "aspect_step aspect_client (600, 600) = (600, 450)"
    "flt (Fl 0 0) (c_mina aspect_client)" "flt (Fl 0 0) (c_maxa aspect_client)"
    "flt (c_maxa aspect_client) (fdivp 24 (float_of_int 1600) (float_of_int 600))"
    "\<not> flt (c_maxa aspect_client) (fdivp 24 (float_of_int 600) (float_of_int 600))"
    "flt (c_mina aspect_client) (fdivp 24 (float_of_int 600) (float_of_int 600))"
    by code_simp+
  from C7_aspect_step [of 1600 600 aspect_client 1067 600] e(1,3,4,5)
  have 1: "\<bar>1067 - 600 * fval (c_maxa aspect_client)\<bar>
         \<le> 1 / 2 + (600 * fval (c_maxa aspect_client) + 1) / 2 ^ 22"
    by simp
  from C7_aspect_step [of 600 600 aspect_client 600 450] e(2,3,4,6,7)
  have 2: "\<bar>450 - 600 * fval (c_mina aspect_client)\<bar>
         \<le> 1 / 2 + (600 * fval (c_mina aspect_client) + 1) / 2 ^ 22"
    by simp
  from e(1,2) 1 2 show ?thesis by (intro conjI)
qed

subsection \<open>C3: the selected client and the head of the focus stack\<close>

text \<open>
  C3, as stated: on every monitor the selected client of the selected view is NULL or
  the head of the view's focus stack, and \<^verbatim>\<open>sendmon\<close> and \<^verbatim>\<open>tagmon\<close> preserve this.
  With W1 selected on the first monitor and W2 selected on the second, which is
  \<^verbatim>\<open>selmon\<close>, the property holds on both monitors; \<^verbatim>\<open>tagmon\<close> then puts W2 at the head
  of the focus stack of the first monitor and leaves W1 selected there:
  \<^verbatim>\<open>focus(NULL)\<close> only updates \<^verbatim>\<open>selmon\<close>.
\<close>

theorem C3_sel_head_counterexample:
  "do { s \<leftarrow> two_monitors;
        s' \<leftarrow> tagmon demo_cfg s 1;
        v \<leftarrow> SELVIEW s' 0;
        Some (wellformed s, list_all (sel_ok s) (mons s), selmon s, mons s',
              v_sel v, v_stack v, sel_ok s' 0) }
   = Some (True, True, 1, [0, 1], Some 1, [2, 1], False)"
  by code_simp

text \<open>
  C3, amended.  In a well-formed state, \<^verbatim>\<open>focus(NULL)\<close>, \<^verbatim>\<open>arrange\<close>, \<^verbatim>\<open>tag\<close>,
  \<^verbatim>\<open>unmanage\<close>, \<^verbatim>\<open>sendmon\<close>, \<^verbatim>\<open>tagmon\<close>, \<^verbatim>\<open>focus(c)\<close> for a client of the selected
  view of a monitor of the chain, and \<^verbatim>\<open>manage\<close> of a new client each return a
  well-formed state in which the selected client of the selected view of \<^verbatim>\<open>selmon\<close> is
  NULL or the head of that view's focus stack (\<^verbatim>\<open>tag\<close>, \<^verbatim>\<open>sendmon\<close> and \<^verbatim>\<open>tagmon\<close>
  when this held of \<^verbatim>\<open>selmon\<close> before).  \<^verbatim>\<open>focus\<close>, \<^verbatim>\<open>arrange\<close>, \<^verbatim>\<open>tag\<close> and
  \<^verbatim>\<open>unmanage\<close> keep the property on every monitor that had it; \<^verbatim>\<open>sendmon\<close> and
  \<^verbatim>\<open>tagmon\<close> keep it on every monitor but the receiving one, and \<^verbatim>\<open>manage\<close> on every
  monitor but the one of the new client, unless that is \<^verbatim>\<open>selmon\<close>.  On the receiving
  monitor \<^verbatim>\<open>sendmon\<close> breaks the property whenever that monitor is in the chain, is not
  \<^verbatim>\<open>selmon\<close>, and had the property with a selected client.
\<close>

theorem C3_sel_head:
  "(wellformed s \<and> focus s None = Some sf
      \<longrightarrow> wellformed sf \<and> sel_ok sf (selmon sf) \<and> (\<forall>k. sel_ok s k \<longrightarrow> sel_ok sf k))
   \<and> (wellformed s \<and> arrange cfg s m0 = Some sa
      \<longrightarrow> wellformed sa \<and> sel_ok sa (selmon sa) \<and> (\<forall>k. sel_ok s k \<longrightarrow> sel_ok sa k))
   \<and> (wellformed s \<and> sel_ok s (selmon s) \<and> tag cfg s ui = Some st
      \<longrightarrow> wellformed st \<and> sel_ok st (selmon st) \<and> (\<forall>k. sel_ok s k \<longrightarrow> sel_ok st k))
   \<and> (wellformed s \<and> unmanage cfg s c destroyed = Some su
      \<longrightarrow> wellformed su \<and> sel_ok su (selmon su) \<and> (\<forall>k. sel_ok s k \<longrightarrow> sel_ok su k))
   \<and> (wellformed s \<and> sel_ok s (selmon s) \<and> sendmon cfg s c m = Some sm
      \<longrightarrow> wellformed sm \<and> sel_ok sm (selmon sm) \<and> (\<forall>k. k \<noteq> m \<longrightarrow> sel_ok s k \<longrightarrow> sel_ok sm k))
   \<and> (wellformed s \<and> sel_ok s (selmon s) \<and> tagmon cfg s dir = Some sg
      \<longrightarrow> wellformed sg \<and> sel_ok sg (selmon sg)
          \<and> (\<forall>k. dirtomon s dir \<noteq> Some k \<longrightarrow> sel_ok s k \<longrightarrow> sel_ok sg k))
   \<and> (wellformed s \<and> sendmon cfg s c m = Some sm \<and> c_mon (client_at s c) \<noteq> m
        \<and> m \<noteq> selmon s \<and> m \<in> set (mons s) \<and> sel_ok s m
        \<and> sel_of s m (m_selview (monitor_at s m)) \<noteq> None
      \<longrightarrow> \<not> sel_ok sm m)
   \<and> (wellformed s \<and> focus s (Some c) = Some sc \<and> c_mon (client_at s c) \<in> set (mons s)
        \<and> c_view (client_at s c) = m_selview (monitor_at s (c_mon (client_at s c)))
      \<longrightarrow> wellformed sc \<and> selmon sc = c_mon (client_at s c) \<and> sel_ok sc (selmon sc)
          \<and> (\<forall>k. sel_ok s k \<longrightarrow> sel_ok sc k))
   \<and> (wellformed s \<and> unstacked s c \<and> manage cfg X s c win wa = Some sn
      \<longrightarrow> wellformed sn \<and> sel_ok sn (selmon sn)
          \<and> (\<forall>k. k \<noteq> c_mon (client_at sn c) \<or> k = selmon sn \<longrightarrow> sel_ok s k \<longrightarrow> sel_ok sn k))"
proof -
  have 1: "wellformed sf \<and> sel_ok sf (selmon sf) \<and> (\<forall>k. sel_ok s k \<longrightarrow> sel_ok sf k)"
    if "wellformed s" "focus s None = Some sf"
    using inv_focus(1,2,3) [OF that] by blast
  have 2: "wellformed sa \<and> sel_ok sa (selmon sa) \<and> (\<forall>k. sel_ok s k \<longrightarrow> sel_ok sa k)"
    if "wellformed s" "arrange cfg s m0 = Some sa"
    using inv_arrange(1,2,3) [OF that] by blast
  have 3: "wellformed st \<and> sel_ok st (selmon st) \<and> (\<forall>k. sel_ok s k \<longrightarrow> sel_ok st k)"
    if "wellformed s" "sel_ok s (selmon s)" "tag cfg s ui = Some st"
    using inv_tag(1,2,3) [OF that] by blast
  have 4: "wellformed su \<and> sel_ok su (selmon su) \<and> (\<forall>k. sel_ok s k \<longrightarrow> sel_ok su k)"
    if "wellformed s" "unmanage cfg s c destroyed = Some su"
    using inv_unmanage(1,2,3) [OF that] by blast
  have 5: "wellformed sm \<and> sel_ok sm (selmon sm) \<and> (\<forall>k. k \<noteq> m \<longrightarrow> sel_ok s k \<longrightarrow> sel_ok sm k)"
    if "wellformed s" "sel_ok s (selmon s)" "sendmon cfg s c m = Some sm"
  proof (cases "c_mon (client_at s c) = m")
    case True
    with that(3) have "sm = s" by (simp add: sendmon_def)
    with that show ?thesis by simp
  next
    case False
    from inv_sendmon(1,2,3) [OF that(1,3) False] show ?thesis by blast
  qed
  have 6: "wellformed sg \<and> sel_ok sg (selmon sg)
          \<and> (\<forall>k. dirtomon s dir \<noteq> Some k \<longrightarrow> sel_ok s k \<longrightarrow> sel_ok sg k)"
    if "wellformed s" "sel_ok s (selmon s)" "tagmon cfg s dir = Some sg"
    using inv_tagmon [OF that] by blast
  have 7: "\<not> sel_ok sm m"
    if "wellformed s" "sendmon cfg s c m = Some sm" "c_mon (client_at s c) \<noteq> m"
      "m \<noteq> selmon s" "m \<in> set (mons s)" "sel_ok s m"
      "sel_of s m (m_selview (monitor_at s m)) \<noteq> None"
    using inv_sendmon(6) [OF that] .
  have 8: "wellformed sc \<and> selmon sc = c_mon (client_at s c) \<and> sel_ok sc (selmon sc)
          \<and> (\<forall>k. sel_ok s k \<longrightarrow> sel_ok sc k)"
    if "wellformed s" "focus s (Some c) = Some sc" "c_mon (client_at s c) \<in> set (mons s)"
      "c_view (client_at s c) = m_selview (monitor_at s (c_mon (client_at s c)))"
    using inv_focus_client [OF that] by blast
  have 9: "wellformed sn \<and> sel_ok sn (selmon sn)
          \<and> (\<forall>k. k \<noteq> c_mon (client_at sn c) \<or> k = selmon sn \<longrightarrow> sel_ok s k \<longrightarrow> sel_ok sn k)"
    if "wellformed s" "unstacked s c" "manage cfg X s c win wa = Some sn"
    using inv_manage [OF that] by blast
  show ?thesis
    apply (intro conjI impI)
    subgoal using 1 by blast
    subgoal using 1 by blast
    subgoal using 1 by blast
    subgoal using 2 by blast
    subgoal using 2 by blast
    subgoal using 2 by blast
    subgoal using 3 by blast
    subgoal using 3 by blast
    subgoal using 3 by blast
    subgoal using 4 by blast
    subgoal using 4 by blast
    subgoal using 4 by blast
    subgoal using 5 by blast
    subgoal using 5 by blast
    subgoal using 5 by blast
    subgoal using 6 by blast
    subgoal using 6 by blast
    subgoal using 6 by blast
    subgoal using 7 by blast
    subgoal using 8 by blast
    subgoal using 8 by blast
    subgoal using 8 by blast
    subgoal using 8 by blast
    subgoal using 9 by blast
    subgoal using 9 by blast
    subgoal using 9 by blast
    done
qed

theorem C3_sel_head_witness:
  "(case two_windows of
      None \<Rightarrow> False
    | Some s \<Rightarrow>
        (case tag demo_cfg s 1 of
           None \<Rightarrow> False
         | Some s' \<Rightarrow> wellformed s \<and> sel_ok s (selmon s) \<and> wellformed s' \<and> sel_ok s' (selmon s')))
   \<and> (case two_monitors of
      None \<Rightarrow> False
    | Some s \<Rightarrow>
        (case tagmon demo_cfg s 1 of
           None \<Rightarrow> False
         | Some s' \<Rightarrow> wellformed s \<and> sel_ok s (selmon s) \<and> sel_ok s 0
                       \<and> wellformed s' \<and> sel_ok s' (selmon s') \<and> \<not> sel_ok s' 0))"
proof -
  have "map_option (\<lambda>s. (wellformed s, sel_ok s (selmon s), tag demo_cfg s 1 \<noteq> None)) two_windows
        = Some (True, True, True)"
    by code_simp
  then obtain s s' where s: "two_windows = Some s" and w: "wellformed s" and ok: "sel_ok s (selmon s)"
    and s': "tag demo_cfg s 1 = Some s'"
    by auto
  from C3_sel_head [where s = s and cfg = demo_cfg and ui = 1 and st = s',
      THEN conjunct2, THEN conjunct2, THEN conjunct1] w ok s'
  have "wellformed s' \<and> sel_ok s' (selmon s')" by blast
  with w ok have 1: "case two_windows of
      None \<Rightarrow> False
    | Some s \<Rightarrow>
        (case tag demo_cfg s 1 of
           None \<Rightarrow> False
         | Some s' \<Rightarrow> wellformed s \<and> sel_ok s (selmon s) \<and> wellformed s' \<and> sel_ok s' (selmon s'))"
    by (simp only: s s' option.case simp_thms)
  have "map_option (\<lambda>s. (wellformed s, sel_ok s (selmon s), selmon s,
            map_option v_sel (SELVIEW s (selmon s)), dirtomon s 1, tagmon demo_cfg s 1 \<noteq> None,
            c_mon (client_at s 2), 0 \<in> set (mons s), sel_ok s 0,
            sel_of s 0 (m_selview (monitor_at s 0)))) two_monitors
        = Some (True, True, 1, Some (Some 2), Some 0, True, 1, True, True, Some 1)"
    by code_simp
  then obtain t t' and v :: View where t: "two_monitors = Some t" and wt: "wellformed t"
    and okt: "sel_ok t (selmon t)" and selt: "selmon t = 1"
    and v: "SELVIEW t (selmon t) = Some v" "v_sel v = Some 2"
    and d: "dirtomon t 1 = Some 0" and t': "tagmon demo_cfg t 1 = Some t'"
    and c: "c_mon (client_at t 2) = 1" and m: "0 \<in> set (mons t)" and ok0: "sel_ok t 0"
    and se: "sel_of t 0 (m_selview (monitor_at t 0)) = Some 1"
    by auto
  from v d have "tagmon demo_cfg t 1 = sendmon demo_cfg t 2 0" by (simp add: tagmon_def)
  with t' have sm: "sendmon demo_cfg t 2 0 = Some t'" by simp
  from C3_sel_head [where s = t and cfg = demo_cfg and dir = 1 and sg = t',
      THEN conjunct2, THEN conjunct2, THEN conjunct2, THEN conjunct2, THEN conjunct2, THEN conjunct1]
    wt okt t'
  have a: "wellformed t' \<and> sel_ok t' (selmon t')" by blast
  from C3_sel_head [where s = t and cfg = demo_cfg and c = 2 and m = 0 and sm = t',
      THEN conjunct2, THEN conjunct2, THEN conjunct2, THEN conjunct2, THEN conjunct2, THEN conjunct2,
      THEN conjunct1]
    wt sm c selt m ok0 se
  have b: "\<not> sel_ok t' 0" by simp
  from wt okt ok0 a b have 2: "case two_monitors of
      None \<Rightarrow> False
    | Some s \<Rightarrow>
        (case tagmon demo_cfg s 1 of
           None \<Rightarrow> False
         | Some s' \<Rightarrow> wellformed s \<and> sel_ok s (selmon s) \<and> sel_ok s 0
                       \<and> wellformed s' \<and> sel_ok s' (selmon s') \<and> \<not> sel_ok s' 0)"
    by (simp only: t t' option.case simp_thms)
  from 1 2 show ?thesis by (rule conjI)
qed

end
